theory Spec2Isabelle
  imports Complex_Main "HOL-Library.Word" "HOL-Library.Log_Nat"
begin

unbundle bit_operations_syntax

section \<open>JavaScript primitives used by the calculator\<close>

subsection \<open>32-bit integer operators\<close>

text \<open>
  A JavaScript Number that holds an integer is an \<open>int\<close> here (every value that occurs
  is far below \<open>2^53\<close>, so the double arithmetic of \<open>+\<close> and \<open>-\<close> is exact).
  The bitwise operators first convert their operands to 32 bits: \<open>&\<close>, \<open>|\<close>, \<open>~\<close>
  and \<open><<\<close> return a signed 32-bit value, \<open>>>>\<close> an unsigned one.
\<close>

type_synonym u32 = "32 word"

definition js_and :: "int \<Rightarrow> int \<Rightarrow> int" where
  "js_and a b = sint ((word_of_int a :: u32) AND word_of_int b)"

definition js_or :: "int \<Rightarrow> int \<Rightarrow> int" where
  "js_or a b = sint ((word_of_int a :: u32) OR word_of_int b)"

definition js_not :: "int \<Rightarrow> int" where
  "js_not a = sint (NOT (word_of_int a :: u32))"

definition js_shl :: "int \<Rightarrow> nat \<Rightarrow> int" where
  "js_shl a k = sint (push_bit (k mod 32) (word_of_int a :: u32))"

definition js_ushr :: "int \<Rightarrow> nat \<Rightarrow> int" where
  "js_ushr a k = uint (drop_bit (k mod 32) (word_of_int a :: u32))"

subsection \<open>Strings\<close>

text \<open>
  A JavaScript string is a \<open>string\<close>; one \<open>char\<close> stands for one code unit (the
  accented letters of the messages are below 256).
\<close>

text \<open>The digits are the characters with codes 48 to 57.\<close>

definition digit_char :: "nat \<Rightarrow> char" where
  "digit_char d = char_of (48 + d)"

definition is_digit :: "char \<Rightarrow> bool" where
  "is_digit c = (48 \<le> (of_char c :: nat) \<and> (of_char c :: nat) \<le> 57)"

definition digit_val :: "char \<Rightarrow> nat" where
  "digit_val c = of_char c - 48"

text \<open>The value of a string of digits in base \<open>r\<close>, most significant digit first.\<close>

definition radix_val :: "nat \<Rightarrow> string \<Rightarrow> nat" where
  "radix_val r s = foldl (\<lambda>a c. r * a + digit_val c) 0 s"

text \<open>
  \<open>Number(s)\<close> for the strings this development covers: one to fifteen decimal
  digits, read in base ten (leading zeros allowed; the value is below \<open>2^53\<close> and hence
  exact). \<open>None\<close> marks a string outside this fragment (the empty string, signs,
  white space, fractions, exponents, other radixes, other text), where JavaScript would
  go on with some other number or with \<open>NaN\<close>.
\<close>

definition Number_js :: "string \<Rightarrow> int option" where
  "Number_js s =
     (if s \<noteq> [] \<and> list_all is_digit s \<and> length s \<le> 15 then Some (int (radix_val 10 s)) else None)"

text \<open>\<open>n.toString(radix)\<close> for an integer (a negative one prints its sign first).\<close>

function radix_str :: "nat \<Rightarrow> nat \<Rightarrow> string" where
  "radix_str r n =
     (if r < 2 \<or> n < r then [digit_char n]
      else radix_str r (n div r) @ [digit_char (n mod r)])"
  by pat_completeness auto
termination
  by (relation "measure snd") auto

declare radix_str.simps [simp del]

definition Number_toString :: "nat \<Rightarrow> int \<Rightarrow> string" where
  "Number_toString r n =
     (if n < 0 then CHR ''-'' # radix_str r (nat (- n)) else radix_str r (nat n))"

text \<open>\<open>s.split('.')\<close>: the pieces between the dots; never an empty list.\<close>

fun split_dot :: "string \<Rightarrow> string list" where
  "split_dot [] = [[]]"
| "split_dot (c # cs) =
     (if c = CHR ''.'' then [] # split_dot cs
      else (case split_dot cs of
              [] \<Rightarrow> [[c]]
            | p # ps \<Rightarrow> (c # p) # ps))"

text \<open>\<open>parts.join('.')\<close> and \<open>parts.join('')\<close>.\<close>

fun join_dot :: "string list \<Rightarrow> string" where
  "join_dot [] = []"
| "join_dot [p] = p"
| "join_dot (p # q # ps) = p @ CHR ''.'' # join_dot (q # ps)"

definition padStart :: "nat \<Rightarrow> char \<Rightarrow> string \<Rightarrow> string" where
  "padStart n c s = replicate (n - length s) c @ s"

definition substr :: "string \<Rightarrow> nat \<Rightarrow> nat \<Rightarrow> string" where
  "substr s start len = take len (drop start s)"

text \<open>
  \<open>parseInt(s, 2)\<close> on a string made of the characters 0 and 1: the value of the
  longest prefix of binary digits, \<open>None\<close> (for \<open>NaN\<close>) when that prefix is empty.
\<close>

definition parseInt2 :: "string \<Rightarrow> int option" where
  "parseInt2 s =
     (let ds = takeWhile (\<lambda>c. c = CHR ''0'' \<or> c = CHR ''1'') s
      in if ds = [] then None else Some (int (radix_val 2 ds)))"

subsection \<open>Regular expressions\<close>

text \<open>
  The two patterns of the validator use literals, character classes, ranges,
  concatenation, alternation, \<open>?\<close> and \<open>*\<close>, anchored at both ends.
  \<open>RegExp.test\<close> on an anchored pattern without back-references answers whether the
  whole string belongs to the language of the pattern; it is computed here with
  derivatives.
\<close>

datatype rx =
    Lit char
  | Class "char list"
  | Range char char
  | Cat rx rx
  | Alt rx rx
  | Opt rx
  | Star rx
  | Eps
  | Nothing

definition in_range :: "char \<Rightarrow> char \<Rightarrow> char \<Rightarrow> bool" where
  "in_range lo hi c = ((of_char lo :: nat) \<le> of_char c \<and> (of_char c :: nat) \<le> of_char hi)"

fun nullable :: "rx \<Rightarrow> bool" where
  "nullable (Lit c) = False"
| "nullable (Class cs) = False"
| "nullable (Range lo hi) = False"
| "nullable (Cat r s) = (nullable r \<and> nullable s)"
| "nullable (Alt r s) = (nullable r \<or> nullable s)"
| "nullable (Opt r) = True"
| "nullable (Star r) = True"
| "nullable Eps = True"
| "nullable Nothing = False"

fun deriv :: "char \<Rightarrow> rx \<Rightarrow> rx" where
  "deriv c (Lit d) = (if c = d then Eps else Nothing)"
| "deriv c (Class cs) = (if c \<in> set cs then Eps else Nothing)"
| "deriv c (Range lo hi) = (if in_range lo hi c then Eps else Nothing)"
| "deriv c (Cat r s) =
     (if nullable r then Alt (Cat (deriv c r) s) (deriv c s) else Cat (deriv c r) s)"
| "deriv c (Alt r s) = Alt (deriv c r) (deriv c s)"
| "deriv c (Opt r) = deriv c r"
| "deriv c (Star r) = Cat (deriv c r) (Star r)"
| "deriv c Eps = Nothing"
| "deriv c Nothing = Nothing"

fun rx_test :: "rx \<Rightarrow> string \<Rightarrow> bool" where
  "rx_test r [] = nullable r"
| "rx_test r (c # cs) = rx_test (deriv c r) cs"

text \<open>The language of a pattern, as a relation between pattern and string.\<close>

inductive rx_lang :: "rx \<Rightarrow> string \<Rightarrow> bool" where
  L_Lit: "rx_lang (Lit c) [c]"
| L_Class: "c \<in> set cs \<Longrightarrow> rx_lang (Class cs) [c]"
| L_Range: "in_range lo hi c \<Longrightarrow> rx_lang (Range lo hi) [c]"
| L_Cat: "rx_lang r u \<Longrightarrow> rx_lang s v \<Longrightarrow> rx_lang (Cat r s) (u @ v)"
| L_AltL: "rx_lang r u \<Longrightarrow> rx_lang (Alt r s) u"
| L_AltR: "rx_lang s u \<Longrightarrow> rx_lang (Alt r s) u"
| L_OptNone: "rx_lang (Opt r) []"
| L_OptSome: "rx_lang r u \<Longrightarrow> rx_lang (Opt r) u"
| L_StarNil: "rx_lang (Star r) []"
| L_StarCons: "rx_lang r u \<Longrightarrow> rx_lang (Star r) v \<Longrightarrow> rx_lang (Star r) (u @ v)"
| L_Eps: "rx_lang Eps []"


section \<open>Numbers that are not integers\<close>

text \<open>
  \<open>Math.ceil(Math.log2(x))\<close> for an integer \<open>x\<close>, with the logarithm taken exactly:
  \<open>NaN\<close> below zero, minus infinity at zero, and otherwise the least \<open>k\<close> with
  \<open>x \<le> 2^k\<close>. (Floating point is not modelled: \<open>Math.log2\<close> is taken to be exact on
  powers of two, which is all that \<open>Math.ceil\<close> can observe for integers below \<open>2^53\<close>.)
\<close>

datatype js_num = Num int | NaN | NegInf | PosInf

function ceil_log2 :: "nat \<Rightarrow> nat" where
  "ceil_log2 n = (if n \<le> 1 then 0 else Suc (ceil_log2 ((n + 1) div 2)))"
  by pat_completeness auto
termination
  by (relation "measure id") auto

declare ceil_log2.simps [simp del]

definition ceil_log2_js :: "int \<Rightarrow> js_num" where
  "ceil_log2_js x =
     (if x < 0 then NaN else if x = 0 then NegInf else Num (int (ceil_log2 (nat x))))"

fun js_add :: "js_num \<Rightarrow> js_num \<Rightarrow> js_num" where
  "js_add (Num a) (Num b) = Num (a + b)"
| "js_add NaN _ = NaN"
| "js_add _ NaN = NaN"
| "js_add NegInf PosInf = NaN"
| "js_add PosInf NegInf = NaN"
| "js_add NegInf _ = NegInf"
| "js_add _ NegInf = NegInf"
| "js_add PosInf _ = PosInf"
| "js_add _ PosInf = PosInf"

fun js_neg :: "js_num \<Rightarrow> js_num" where
  "js_neg (Num a) = Num (- a)"
| "js_neg NaN = NaN"
| "js_neg NegInf = PosInf"
| "js_neg PosInf = NegInf"

definition js_sub :: "js_num \<Rightarrow> js_num \<Rightarrow> js_num" where
  "js_sub a b = js_add a (js_neg b)"

text \<open>\<open>a > b\<close> for an integer \<open>b\<close>; every comparison with \<open>NaN\<close> is false.\<close>

fun js_gt :: "js_num \<Rightarrow> int \<Rightarrow> bool" where
  "js_gt (Num a) b = (a > b)"
| "js_gt NaN b = False"
| "js_gt NegInf b = False"
| "js_gt PosInf b = True"

datatype js_error =
    RangeError
  | TypeError
  | Error string
  | OutsideModel

text \<open>
  \<open>OutsideModel\<close> is not a JavaScript exception: it marks an input outside the fragment
  covered by \<open>Number_js\<close>.

  \<open>c.repeat(count)\<close>: a negative or infinite count raises \<open>RangeError\<close>, \<open>NaN\<close>
  counts as zero.
\<close>

fun js_repeat :: "char \<Rightarrow> js_num \<Rightarrow> js_error + string" where
  "js_repeat c (Num n) = (if n < 0 then Inl RangeError else Inr (replicate (nat n) c))"
| "js_repeat c NaN = Inr []"
| "js_repeat c NegInf = Inl RangeError"
| "js_repeat c PosInf = Inl RangeError"

text \<open>An array element printed by \<open>join\<close>: a number, or \<open>NaN\<close>.\<close>

definition num_or_NaN_str :: "int option \<Rightarrow> string" where
  "num_or_NaN_str v = (case v of None \<Rightarrow> ''NaN'' | Some n \<Rightarrow> Number_toString 10 n)"

text \<open>
  \<open>x.toFixed(2)\<close> for a finite \<open>x\<close> of magnitude below \<open>10^21\<close>, on the exact
  quotient rather than on its double: the sign, then the integer nearest to \<open>100 |x|\<close>
  (the larger one on a tie), padded to three digits, with a point before the last two.
\<close>

definition toFixed2 :: "rat \<Rightarrow> string" where
  "toFixed2 x =
     (let n = nat \<lfloor>\<bar>x\<bar> * 100 + 1 / 2\<rfloor>;
          m = padStart 3 (CHR ''0'') (radix_str 10 n);
          k = length m - 2
      in (if x < 0 then ''-'' else []) @ take k m @ ''.'' @ drop k m)"

section \<open>Validador\<close>

text \<open>
  A Number, as its conversion to a string sees it. For a finite Number \<open>x\<close> other than
  zero, \<open>Number::toString\<close> takes the integers \<open>n\<close>, \<open>k\<close> and \<open>s\<close> with \<open>k \<ge> 1\<close> and
  \<open>10^(k-1) \<le> s < 10^k\<close> such that \<open>s \<times> 10^(n-k)\<close> is \<open>|x|\<close> as a Number, with \<open>k\<close> as
  small as possible: \<open>s\<close> holds the shortest decimal digits that denote \<open>x\<close>, and \<open>n\<close>
  places the point. \<open>NumFinite neg s n\<close> is the Number with this \<open>s\<close> (at least 1) and this
  \<open>n\<close>, below zero when \<open>neg\<close> holds: 50 is \<open>NumFinite False 5 2\<close>, 12.7 is
  \<open>NumFinite False 127 2\<close>, and \<open>1e21\<close> is \<open>NumFinite False 1 22\<close>. The two zeros are
  \<open>NumZero\<close>: they print alike, and both are falsy.
\<close>

datatype js_number =
    NumNaN
  | NumInfinity bool
  | NumZero
  | NumFinite bool nat int

text \<open>
  \<open>String(x)\<close> for a Number: plain digits when \<open>k \<le> n \<le> 21\<close>, digits with a point when
  \<open>0 < n \<le> 21\<close> or \<open>-6 < n \<le> 0\<close>, and otherwise the exponent form, as in \<open>1e+21\<close> and
  \<open>1.5e-7\<close>.
\<close>

definition exponent_text :: "int \<Rightarrow> string" where
  "exponent_text e = (if e < 0 then CHR ''-'' else CHR ''+'') # radix_str 10 (nat \<bar>e\<bar>)"

fun ToString :: "js_number \<Rightarrow> string" where
  "ToString NumNaN = ''NaN''"
| "ToString (NumInfinity neg) = (if neg then ''-Infinity'' else ''Infinity'')"
| "ToString NumZero = ''0''"
| "ToString (NumFinite neg s n) =
     (let ds = radix_str 10 s;
          k = int (length ds);
          t = (if k \<le> n \<and> n \<le> 21 then ds @ replicate (nat (n - k)) CHR ''0''
               else if 0 < n \<and> n \<le> 21 then take (nat n) ds @ ''.'' @ drop (nat n) ds
               else if - 6 < n \<and> n \<le> 0 then ''0.'' @ replicate (nat (- n)) CHR ''0'' @ ds
               else if k = 1 then ds @ ''e'' @ exponent_text (n - 1)
               else take 1 ds @ ''.'' @ drop 1 ds @ ''e'' @ exponent_text (n - 1))
      in (if neg then CHR ''-'' # t else t))"

text \<open>An argument documented as \<open>number|string\<close>.\<close>

datatype js_value = JNum js_number | JStr string

text \<open>
  \<open>(25[0-5]|2[0-4][0-9]|[01]?[0-9][0-9]?)\<close>, four times with \<open>\.\<close> between,
  and \<open>1*0*\<close>.
\<close>

definition octetRx :: rx where
  "octetRx =
     Alt (Cat (Lit CHR ''2'') (Cat (Lit CHR ''5'') (Range CHR ''0'' CHR ''5'')))
    (Alt (Cat (Lit CHR ''2'') (Cat (Range CHR ''0'' CHR ''4'') (Range CHR ''0'' CHR ''9'')))
         (Cat (Opt (Class ''01'')) (Cat (Range CHR ''0'' CHR ''9'') (Opt (Range CHR ''0'' CHR ''9'')))))"

definition ipRegex :: rx where
  "ipRegex =
     Cat octetRx (Cat (Lit CHR ''.'')
    (Cat octetRx (Cat (Lit CHR ''.'')
    (Cat octetRx (Cat (Lit CHR ''.'') octetRx)))))"

definition patronMascara :: rx where
  "patronMascara = Cat (Star (Lit CHR ''1'')) (Star (Lit CHR ''0''))"

text \<open>\<open>s.split('.').map(Number)\<close>.\<close>

definition octetos_de :: "string \<Rightarrow> int list option" where
  "octetos_de s = those (map Number_js (split_dot s))"

text \<open>\<open>octetos.map(octeto => octeto.toString(2).padStart(8, '0')).join('')\<close>.\<close>

definition binario_de :: "int list \<Rightarrow> string" where
  "binario_de octetos =
     concat (map (\<lambda>octeto. padStart 8 (CHR ''0'') (Number_toString 2 octeto)) octetos)"

definition esDireccionIPValida :: "string \<Rightarrow> bool" where
  "esDireccionIPValida ip =
     (if ip = [] then False
      else if \<not> rx_test ipRegex ip then False
      else (case octetos_de ip of
              None \<Rightarrow> False
            | Some octetos \<Rightarrow>
                if list_all (\<lambda>octeto. octeto = 0) octetos then False
                else if list_all (\<lambda>octeto. octeto = 255) octetos then False
                else True))"

definition esMascaraSubredValida :: "string \<Rightarrow> bool" where
  "esMascaraSubredValida mascara =
     (if \<not> esDireccionIPValida mascara then False
      else (case octetos_de mascara of
              None \<Rightarrow> False
            | Some octetos \<Rightarrow> rx_test patronMascara (binario_de octetos)))"

text \<open>
  \<open>parseInt(s)\<close> without a radix: white space is skipped, then a sign, then \<open>0x\<close> or
  \<open>0X\<close> selects base sixteen; the longest run of digits of the base is read, and
  \<open>None\<close> (for \<open>NaN\<close>) is returned when that run is empty. The result is the exact
  integer; JavaScript rounds it to a double, which the comparisons with 1 and 16777214
  cannot observe.
\<close>

definition is_space :: "char \<Rightarrow> bool" where
  "is_space c = ((of_char c :: nat) \<in> {9, 10, 11, 12, 13, 32, 160})"

definition js_trim :: "string \<Rightarrow> string" where
  "js_trim s = rev (dropWhile is_space (rev (dropWhile is_space s)))"

definition hex_val :: "char \<Rightarrow> nat option" where
  "hex_val c =
     (let n = (of_char c :: nat)
      in if 48 \<le> n \<and> n \<le> 57 then Some (n - 48)
         else if 97 \<le> n \<and> n \<le> 102 then Some (n - 87)
         else if 65 \<le> n \<and> n \<le> 70 then Some (n - 55)
         else None)"

definition parse_digits :: "nat \<Rightarrow> string \<Rightarrow> int option" where
  "parse_digits radix s =
     (let ds = takeWhile (\<lambda>c. case hex_val c of None \<Rightarrow> False | Some d \<Rightarrow> d < radix) s
      in if ds = [] then None
         else Some (int (foldl (\<lambda>a c. radix * a + the (hex_val c)) 0 ds)))"

definition parseInt_js :: "string \<Rightarrow> int option" where
  "parseInt_js s =
     (let t = dropWhile is_space s;
          neg = (t \<noteq> [] \<and> hd t = CHR ''-'');
          u = (if t \<noteq> [] \<and> (hd t = CHR ''-'' \<or> hd t = CHR ''+'') then tl t else t);
          hex = (take 2 u = ''0x'' \<or> take 2 u = ''0X'');
          v = (if hex then parse_digits 16 (drop 2 u) else parse_digits 10 u)
      in map_option (\<lambda>n. if neg then - n else n) v)"

text \<open>\<open>parseInt(v)\<close> for a number or a string: a number is converted to a string first.\<close>

fun parseInt_value :: "js_value \<Rightarrow> int option" where
  "parseInt_value (JNum x) = parseInt_js (ToString x)"
| "parseInt_value (JStr s) = parseInt_js s"

definition esNumeroHostsValido :: "js_value \<Rightarrow> bool" where
  "esNumeroHostsValido hosts =
     (case parseInt_value hosts of
        None \<Rightarrow> False
      | Some numHosts \<Rightarrow>
          if numHosts < 1 then False
          else if numHosts > 16777214 then False
          else True)"

text \<open>The messages; the accented letters are written by their code.\<close>

definition msg_ip_vacia :: string where
  "msg_ip_vacia = ''Por favor, ingresa una direcci'' @ [CHR 0xF3] @ ''n IP.''"

definition msg_ip_cero :: string where
  "msg_ip_cero =
     ''La direcci'' @ [CHR 0xF3] @ ''n 0.0.0.0 no es v'' @ [CHR 0xE1] @ ''lida para c''
     @ [CHR 0xE1] @ ''lculos de subred.''"

definition msg_ip_broadcast :: string where
  "msg_ip_broadcast =
     ''La direcci'' @ [CHR 0xF3] @ ''n 255.255.255.255 es una direcci'' @ [CHR 0xF3]
     @ ''n de broadcast global.''"

definition msg_ip_invalida :: string where
  "msg_ip_invalida =
     ''Por favor, ingresa una direcci'' @ [CHR 0xF3] @ ''n IP v'' @ [CHR 0xE1]
     @ ''lida (ej: 192.168.1.100).''"

definition msg_mascara_vacia :: string where
  "msg_mascara_vacia = ''Por favor, ingresa una m'' @ [CHR 0xE1] @ ''scara de subred.''"

definition msg_mascara_invalida :: string where
  "msg_mascara_invalida =
     ''Por favor, ingresa una m'' @ [CHR 0xE1] @ ''scara de subred v'' @ [CHR 0xE1]
     @ ''lida (ej: 255.255.255.0).''"

definition msg_hosts_vacio :: string where
  "msg_hosts_vacio = ''Por favor, ingresa el n'' @ [CHR 0xFA] @ ''mero de hosts.''"

definition msg_hosts_menor :: string where
  "msg_hosts_menor = ''El n'' @ [CHR 0xFA] @ ''mero de hosts debe ser mayor a 0.''"

definition msg_hosts_mayor :: string where
  "msg_hosts_mayor =
     ''El n'' @ [CHR 0xFA] @ ''mero de hosts es demasiado grande (m'' @ [CHR 0xE1]
     @ ''ximo: 16,777,214).''"

definition msg_hosts_invalido :: string where
  "msg_hosts_invalido =
     ''Por favor, ingresa un n'' @ [CHR 0xFA] @ ''mero v'' @ [CHR 0xE1]
     @ ''lido de hosts (m'' @ [CHR 0xED] @ ''nimo 1).''"

definition msg_defecto :: string where
  "msg_defecto = ''Error en la validaci'' @ [CHR 0xF3] @ ''n de datos.''"

text \<open>
  \<open>!valor || valor.trim() === ''\<close>: the empty string, the number zero and \<open>NaN\<close> are
  falsy; any other number has no \<open>trim\<close> method, and the call raises \<open>TypeError\<close>.
\<close>

fun valor_vacio :: "js_value \<Rightarrow> js_error + bool" where
  "valor_vacio (JStr s) = Inr (s = [] \<or> js_trim s = [])"
| "valor_vacio (JNum x) = (if x = NumZero \<or> x = NumNaN then Inr True else Inl TypeError)"

definition obtenerMensajeError :: "string \<Rightarrow> js_value \<Rightarrow> js_error + string" where
  "obtenerMensajeError tipo valor =
     (if tipo = ''ip'' then
        (case valor_vacio valor of
           Inl e \<Rightarrow> Inl e
         | Inr vacio \<Rightarrow>
             if vacio then Inr msg_ip_vacia
             else if valor = JStr ''0.0.0.0'' then Inr msg_ip_cero
             else if valor = JStr ''255.255.255.255'' then Inr msg_ip_broadcast
             else Inr msg_ip_invalida)
      else if tipo = ''mascara'' then
        (case valor_vacio valor of
           Inl e \<Rightarrow> Inl e
         | Inr vacio \<Rightarrow> if vacio then Inr msg_mascara_vacia else Inr msg_mascara_invalida)
      else if tipo = ''hosts'' then
        (case valor_vacio valor of
           Inl e \<Rightarrow> Inl e
         | Inr vacio \<Rightarrow>
             if vacio then Inr msg_hosts_vacio
             else (case parseInt_value valor of
                     None \<Rightarrow> Inr msg_hosts_invalido
                   | Some numHosts \<Rightarrow>
                       if numHosts < 1 then Inr msg_hosts_menor
                       else if numHosts > 16777214 then Inr msg_hosts_mayor
                       else Inr msg_hosts_invalido))
      else Inr msg_defecto)"

record validacion =
  esValido :: bool
  mensaje :: "string option"

definition validarEntradaCompleta ::
  "string \<Rightarrow> string \<Rightarrow> string \<Rightarrow> js_value \<Rightarrow> js_error + validacion" where
  "validarEntradaCompleta ip tipoEntrada mascara numeroHosts =
     (if \<not> esDireccionIPValida ip then
        (case obtenerMensajeError ''ip'' (JStr ip) of
           Inl e \<Rightarrow> Inl e
         | Inr m \<Rightarrow> Inr \<lparr>esValido = False, mensaje = Some m\<rparr>)
      else if tipoEntrada = ''hosts'' then
        (if \<not> esNumeroHostsValido numeroHosts then
           (case obtenerMensajeError ''hosts'' numeroHosts of
              Inl e \<Rightarrow> Inl e
            | Inr m \<Rightarrow> Inr \<lparr>esValido = False, mensaje = Some m\<rparr>)
         else Inr \<lparr>esValido = True, mensaje = None\<rparr>)
      else if tipoEntrada = ''mascara'' then
        (if \<not> esMascaraSubredValida mascara then
           (case obtenerMensajeError ''mascara'' (JStr mascara) of
              Inl e \<Rightarrow> Inl e
            | Inr m \<Rightarrow> Inr \<lparr>esValido = False, mensaje = Some m\<rparr>)
         else Inr \<lparr>esValido = True, mensaje = None\<rparr>)
      else Inr \<lparr>esValido = True, mensaje = None\<rparr>)"

section \<open>ResultadoIp\<close>

record ResultadoIp =
  networkIP :: string
  subnetMask :: string
  broadcastIP :: string
  firstHostIP :: string
  lastHostIP :: string
  gatewayIP :: string
  totalHosts :: int

text \<open>
  \<open>esValido()\<close>: a chain of \<open>&&\<close> over the six strings and the comparison; it is
  truthy when no string is empty and the host count is not negative.
\<close>

definition ResultadoIp_esValido :: "ResultadoIp \<Rightarrow> bool" where
  "ResultadoIp_esValido r =
     (networkIP r \<noteq> [] \<and> subnetMask r \<noteq> [] \<and> broadcastIP r \<noteq> [] \<and> firstHostIP r \<noteq> []
      \<and> lastHostIP r \<noteq> [] \<and> gatewayIP r \<noteq> [] \<and> totalHosts r \<ge> 0)"

section \<open>CalculadoraSubredes\<close>

definition ipANumero :: "string \<Rightarrow> int option" where
  "ipANumero ip =
     (case octetos_de ip of
        None \<Rightarrow> None
      | Some octetos \<Rightarrow>
          if length octetos < 4 then None
          else Some (js_shl (octetos ! 0) 24 + js_shl (octetos ! 1) 16
                     + js_shl (octetos ! 2) 8 + octetos ! 3))"

definition numeroAIp :: "int \<Rightarrow> string" where
  "numeroAIp numero =
     join_dot (map (Number_toString 10)
       [js_and (js_ushr numero 24) 255,
        js_and (js_ushr numero 16) 255,
        js_and (js_ushr numero 8) 255,
        js_and numero 255])"

text \<open>
  The loop over \<open>i = 0 .. 3\<close> that cuts eight characters at \<open>i * 8\<close>, reads them in
  base two and joins the four numbers with dots.
\<close>

definition octetos_de_binario :: "string \<Rightarrow> string" where
  "octetos_de_binario binaria =
     join_dot (map (\<lambda>i. num_or_NaN_str (parseInt2 (substr binaria (i * 8) 8))) [0..<4])"

definition calcularMascaraDesdeHosts :: "int \<Rightarrow> js_error + string" where
  "calcularMascaraDesdeHosts hosts =
     (let bitsHost = ceil_log2_js (hosts + 2);
          bitsRed = js_sub (Num 32) bitsHost
      in case js_repeat (CHR ''1'') bitsRed of
           Inl e \<Rightarrow> Inl e
         | Inr unos \<Rightarrow>
             (case js_repeat (CHR ''0'') bitsHost of
                Inl e \<Rightarrow> Inl e
              | Inr ceros \<Rightarrow> Inr (octetos_de_binario (unos @ ceros))))"

definition calcularHostsDesdeMascara :: "string \<Rightarrow> int option" where
  "calcularHostsDesdeMascara mascara =
     (case octetos_de mascara of
        None \<Rightarrow> None
      | Some octetos \<Rightarrow>
          let binaria = binario_de octetos;
              bitsHost = length (filter (\<lambda>bit. bit = CHR ''0'') binaria)
          in Some (2 ^ bitsHost - 2))"

definition calcularIpRed :: "string \<Rightarrow> string \<Rightarrow> string option" where
  "calcularIpRed ip mascara =
     (case ipANumero ip of
        None \<Rightarrow> None
      | Some ipNum \<Rightarrow>
          (case ipANumero mascara of
             None \<Rightarrow> None
           | Some mascaraNum \<Rightarrow> Some (numeroAIp (js_and ipNum mascaraNum))))"

definition calcularIpBroadcast :: "string \<Rightarrow> string \<Rightarrow> string option" where
  "calcularIpBroadcast ipRed mascara =
     (case ipANumero ipRed of
        None \<Rightarrow> None
      | Some redNum \<Rightarrow>
          (case ipANumero mascara of
             None \<Rightarrow> None
           | Some mascaraNum \<Rightarrow>
               Some (numeroAIp (js_or redNum (js_ushr (js_not mascaraNum) 0)))))"

definition calcularPrimerHost :: "string \<Rightarrow> string option" where
  "calcularPrimerHost ipRed = map_option (\<lambda>redNum. numeroAIp (redNum + 1)) (ipANumero ipRed)"

definition calcularUltimoHost :: "string \<Rightarrow> string option" where
  "calcularUltimoHost ipBroadcast =
     map_option (\<lambda>broadcastNum. numeroAIp (broadcastNum - 1)) (ipANumero ipBroadcast)"

definition calcularGateway :: "string \<Rightarrow> string option" where
  "calcularGateway ipRed = calcularPrimerHost ipRed"

record info_adicional =
  notacionCIDR :: int
  bitsRed :: int
  bitsHost :: int
  numeroSubredes :: rat
  mascaraBinaria :: string

definition obtenerInfoAdicional :: "string \<Rightarrow> info_adicional option" where
  "obtenerInfoAdicional mascara =
     (case octetos_de mascara of
        None \<Rightarrow> None
      | Some octetos \<Rightarrow>
          let binaria = binario_de octetos;
              unos = int (length (filter (\<lambda>bit. bit = CHR ''1'') binaria))
          in Some \<lparr>notacionCIDR = unos, bitsRed = unos, bitsHost = 32 - unos,
                   numeroSubredes = 2 powi (unos - 8), mascaraBinaria = binaria\<rparr>)"

definition calcularSubredCompleta :: "string \<Rightarrow> string \<Rightarrow> ResultadoIp option" where
  "calcularSubredCompleta ip mascara =
     (case calcularIpRed ip mascara of None \<Rightarrow> None | Some ipRed \<Rightarrow>
      case calcularIpBroadcast ipRed mascara of None \<Rightarrow> None | Some ipBroadcast \<Rightarrow>
      case calcularPrimerHost ipRed of None \<Rightarrow> None | Some primerHost \<Rightarrow>
      case calcularUltimoHost ipBroadcast of None \<Rightarrow> None | Some ultimoHost \<Rightarrow>
      case calcularGateway ipRed of None \<Rightarrow> None | Some gateway \<Rightarrow>
      case calcularHostsDesdeMascara mascara of None \<Rightarrow> None | Some hosts \<Rightarrow>
        Some \<lparr>networkIP = ipRed, subnetMask = mascara, broadcastIP = ipBroadcast,
              firstHostIP = primerHost, lastHostIP = ultimoHost, gatewayIP = gateway,
              totalHosts = hosts\<rparr>)"

definition calcularSubredPorHosts :: "string \<Rightarrow> int \<Rightarrow> js_error + ResultadoIp" where
  "calcularSubredPorHosts ip hosts =
     (case calcularMascaraDesdeHosts hosts of
        Inl e \<Rightarrow> Inl e
      | Inr m \<Rightarrow>
          (case calcularSubredCompleta ip m of
             None \<Rightarrow> Inl OutsideModel
           | Some r \<Rightarrow> Inr r))"

definition calcularDesdeHosts :: "string \<Rightarrow> int \<Rightarrow> js_error + ResultadoIp" where
  "calcularDesdeHosts ip hosts = calcularSubredPorHosts ip hosts"

definition calcularDesdeMascara :: "string \<Rightarrow> string \<Rightarrow> ResultadoIp option" where
  "calcularDesdeMascara ip mascara = calcularSubredCompleta ip mascara"

definition msg_capacidad :: string where
  "msg_capacidad = ''No es posible crear tantas subredes con hosts v'' @ [CHR 0xE1] @ ''lidos''"

text \<open>The loop \<open>for (let i = 0; i < numeroSubredes; i++)\<close>, from \<open>i\<close> on.\<close>

function dividir_bucle ::
  "int \<Rightarrow> int \<Rightarrow> int \<Rightarrow> int \<Rightarrow> string \<Rightarrow> ResultadoIp list \<Rightarrow> ResultadoIp list option" where
  "dividir_bucle i cuantas redPrincipal tamanoSubred mascaraSubred subredes =
     (if i < cuantas then
        (case calcularSubredCompleta (numeroAIp (redPrincipal + i * tamanoSubred)) mascaraSubred of
           None \<Rightarrow> None
         | Some resultado \<Rightarrow>
             dividir_bucle (i + 1) cuantas redPrincipal tamanoSubred mascaraSubred
               (subredes @ [resultado]))
      else Some subredes)"
  by pat_completeness auto
termination
  by (relation "measure (\<lambda>(i, n, _). nat (n - i))") auto

declare dividir_bucle.simps [simp del]

definition dividirEnSubredes :: "string \<Rightarrow> string \<Rightarrow> int \<Rightarrow> js_error + ResultadoIp list" where
  "dividirEnSubredes ip mascara cuantas =
     (let bitsAdicionales = ceil_log2_js cuantas
      in case obtenerInfoAdicional mascara of
           None \<Rightarrow> Inl OutsideModel
         | Some infoActual \<Rightarrow>
             let nuevaBitsRed = js_add (Num (bitsRed infoActual)) bitsAdicionales
             in if js_gt nuevaBitsRed 30 then Inl (Error msg_capacidad)
                else (case js_repeat (CHR ''1'') nuevaBitsRed of
                        Inl e \<Rightarrow> Inl e
                      | Inr unos \<Rightarrow>
                     (case js_repeat (CHR ''0'') (js_sub (Num 32) nuevaBitsRed) of
                        Inl e \<Rightarrow> Inl e
                      | Inr ceros \<Rightarrow>
                          let mascaraSubred = octetos_de_binario (unos @ ceros)
                          in (case nuevaBitsRed of
                                Num k \<Rightarrow>
                                  (case Option.bind (calcularIpRed ip mascara) ipANumero of
                                     None \<Rightarrow> Inl OutsideModel
                                   | Some redPrincipal \<Rightarrow>
                                       (case dividir_bucle 0 cuantas redPrincipal
                                               (2 ^ nat (32 - k)) mascaraSubred [] of
                                          None \<Rightarrow> Inl OutsideModel
                                        | Some subredes \<Rightarrow> Inr subredes))
                              | _ \<Rightarrow> Inr []))))"

definition ipEstaEnSubred :: "string \<Rightarrow> string \<Rightarrow> string \<Rightarrow> bool option" where
  "ipEstaEnSubred ip ipRed mascara =
     (case ipANumero ip of None \<Rightarrow> None | Some ipNum \<Rightarrow>
      case ipANumero ipRed of None \<Rightarrow> None | Some redNum \<Rightarrow>
      case ipANumero mascara of None \<Rightarrow> None | Some mascaraNum \<Rightarrow>
        Some ((js_and ipNum mascaraNum) = redNum))"

record subred_optimizada =
  indice :: nat
  hostsRequeridos :: int
  hostsDisponibles :: int
  mascara :: string
  notacionCIDR_subred :: int
  eficiencia :: string

text \<open>
  \<open>(hosts / disponibles * 100).toFixed(2) + '%'\<close>, with the quotient taken exactly;
  a division by zero gives \<open>NaN\<close> or an infinity, printed by name.
\<close>

definition eficiencia_de :: "int \<Rightarrow> int \<Rightarrow> string" where
  "eficiencia_de hosts disponibles =
     (if disponibles = 0 then
        (if hosts = 0 then ''NaN'' else if hosts > 0 then ''Infinity'' else ''-Infinity'')
      else toFixed2 (of_int hosts / of_int disponibles * 100)) @ ''%''"

text \<open>The body of the \<open>forEach\<close>, from position \<open>index\<close> on.\<close>

fun optimizar_bucle :: "nat \<Rightarrow> int list \<Rightarrow> js_error + subred_optimizada list" where
  "optimizar_bucle index [] = Inr []"
| "optimizar_bucle index (hosts # resto) =
     (case calcularMascaraDesdeHosts hosts of
        Inl e \<Rightarrow> Inl e
      | Inr m \<Rightarrow>
          (case obtenerInfoAdicional m of
             None \<Rightarrow> Inl OutsideModel
           | Some info \<Rightarrow>
               (case calcularHostsDesdeMascara m of
                  None \<Rightarrow> Inl OutsideModel
                | Some disponibles \<Rightarrow>
                    (case optimizar_bucle (Suc index) resto of
                       Inl e \<Rightarrow> Inl e
                     | Inr subredes \<Rightarrow>
                         Inr (\<lparr>indice = index, hostsRequeridos = hosts,
                               hostsDisponibles = disponibles, mascara = m,
                               notacionCIDR_subred = notacionCIDR info,
                               eficiencia = eficiencia_de hosts disponibles\<rparr> # subredes)))))"

text \<open>
  Arrays of numbers are passed by reference. The store holds every array there is, and a
  reference is a position in it. \<open>[...a]\<close> makes a new array with the elements of the
  array at \<open>a\<close>, and \<open>a.sort((x, y) => y - x)\<close> sorts the array at \<open>a\<close> where it lies,
  in descending order and stably, and returns the same reference.
\<close>

type_synonym store = "int list list"

definition js_spread :: "store \<Rightarrow> nat \<Rightarrow> store \<times> nat" where
  "js_spread st a = (st @ [st ! a], length st)"

definition js_sort_desc :: "store \<Rightarrow> nat \<Rightarrow> store \<times> nat" where
  "js_sort_desc st a = (st[a := sort_key (\<lambda>x. - x) (st ! a)], a)"

text \<open>
  \<open>optimizarSubredes\<close> returns the store as the call leaves it, and the result. A
  reference to no array of the store is outside the model.
\<close>

definition optimizarSubredes ::
  "store \<Rightarrow> nat \<Rightarrow> store \<times> (js_error + subred_optimizada list)" where
  "optimizarSubredes st listaHosts =
     (if \<not> listaHosts < length st then (st, Inl OutsideModel)
      else
        let (st1, copia) = js_spread st listaHosts;
            (st2, hostsOrdenados) = js_sort_desc st1 copia
        in (st2, optimizar_bucle 0 (st2 ! hostsOrdenados)))"

section \<open>The claims' own notions\<close>

text \<open>
  The Number that holds an integer \<open>v\<close> of magnitude at most \<open>2^53 - 1\<close>. Every such
  integer is a Number; its shortest digits are its own decimal digits without the zeros
  at the end, and \<open>n\<close> is the number of its digits.
\<close>

function strip_zeros :: "nat \<Rightarrow> nat" where
  "strip_zeros s = (if s \<noteq> 0 \<and> s mod 10 = 0 then strip_zeros (s div 10) else s)"
  by pat_completeness auto
termination
  by (relation "measure id") auto

declare strip_zeros.simps [simp del]

definition Number_of_int :: "int \<Rightarrow> js_number" where
  "Number_of_int v =
     (if v = 0 then NumZero
      else NumFinite (v < 0) (strip_zeros (nat \<bar>v\<bar>)) (int (length (radix_str 10 (nat \<bar>v\<bar>)))))"

text \<open>
  A valid host count in the words of the specification: the input is an integer, at
  least 1 and at most 16777214. A number is an integer when its digits end before the
  point; a string is one when it is a decimal numeral, with or without a minus sign.
\<close>

fun spec_integer :: "js_value \<Rightarrow> int option" where
  "spec_integer (JNum NumNaN) = None"
| "spec_integer (JNum (NumInfinity neg)) = None"
| "spec_integer (JNum NumZero) = Some 0"
| "spec_integer (JNum (NumFinite neg s n)) =
     (let k = int (length (radix_str 10 s))
      in if k \<le> n then Some ((if neg then - 1 else 1) * int s * 10 ^ nat (n - k)) else None)"
| "spec_integer (JStr s) =
     (if s \<noteq> [] \<and> list_all is_digit s then Some (int (radix_val 10 s))
      else if s \<noteq> [] \<and> hd s = CHR ''-'' \<and> tl s \<noteq> [] \<and> list_all is_digit (tl s)
        then Some (- int (radix_val 10 (tl s)))
      else None)"

definition spec_isValidHostCount :: "js_value \<Rightarrow> bool" where
  "spec_isValidHostCount h =
     (case spec_integer h of None \<Rightarrow> False | Some k \<Rightarrow> 1 \<le> k \<and> k \<le> 16777214)"

text \<open>
  The address that a string stands for, as an unsigned 32-bit value: the number that
  \<open>ipANumero\<close> reads, taken modulo \<open>2^32\<close>.
\<close>

definition address_word :: "string \<Rightarrow> u32 option" where
  "address_word s = map_option word_of_int (ipANumero s)"

text \<open>The two binary digits.\<close>

definition is_bit :: "char \<Rightarrow> bool" where
  "is_bit c = (c = CHR ''0'' \<or> c = CHR ''1'')"

text \<open>
  The 32-bit expansion of an address is a run of ones followed by a run of zeros: there
  is no 1 after a 0, reading from the most significant bit. Bit \<open>j\<close> comes after bit
  \<open>i\<close> when \<open>j < i\<close>.
\<close>

definition spec_ones_then_zeros :: "u32 \<Rightarrow> bool" where
  "spec_ones_then_zeros w = (\<forall>i\<in>{0..<32}. \<forall>j\<in>{0..<i}. bit w j \<longrightarrow> bit w i)"

section \<open>Patterns and their languages\<close>

inductive_simps rx_lang_Lit: "rx_lang (Lit c) w"
inductive_simps rx_lang_Class: "rx_lang (Class cs) w"
inductive_simps rx_lang_Range: "rx_lang (Range lo hi) w"
inductive_simps rx_lang_Cat: "rx_lang (Cat r s) w"
inductive_simps rx_lang_Alt: "rx_lang (Alt r s) w"
inductive_simps rx_lang_Opt: "rx_lang (Opt r) w"
inductive_simps rx_lang_Eps: "rx_lang Eps w"
inductive_simps rx_lang_Nothing: "rx_lang Nothing w"

inductive_simps rx_lang_Star_Nil: "rx_lang (Star r) []"

lemma nullable_iff: "nullable r \<longleftrightarrow> rx_lang r []"
  by (induction r) (auto simp: rx_lang_Lit rx_lang_Class rx_lang_Range rx_lang_Cat
      rx_lang_Alt rx_lang_Opt rx_lang_Eps rx_lang_Nothing intro: L_StarNil)

lemma star_cons_split:
  assumes "rx_lang R w" "R = Star r" "w = c # v"
  shows "\<exists>u t. v = u @ t \<and> rx_lang r (c # u) \<and> rx_lang (Star r) t"
  using assms
proof (induction arbitrary: v rule: rx_lang.induct)
  case (L_StarCons r' u t)
  show ?case
  proof (cases u)
    case Nil
    with L_StarCons show ?thesis by simp
  next
    case (Cons a u')
    with L_StarCons.prems L_StarCons.hyps show ?thesis by auto
  qed
qed simp_all

lemma deriv_iff: "rx_lang (deriv c r) w \<longleftrightarrow> rx_lang r (c # w)"
proof (induction r arbitrary: w)
  case (Cat r s)
  show ?case
  proof
    assume "rx_lang (deriv c (Cat r s)) w"
    then consider (a) u v where "w = u @ v" "rx_lang (deriv c r) u" "rx_lang s v"
      | (b) "nullable r" "rx_lang (deriv c s) w"
      by (auto simp: rx_lang_Cat rx_lang_Alt split: if_splits)
    then show "rx_lang (Cat r s) (c # w)"
    proof cases
      case a
      then have "rx_lang r (c # u)" using Cat.IH(1) by simp
      then have "rx_lang (Cat r s) ((c # u) @ v)" using a(3) by (rule L_Cat)
      then show ?thesis using a(1) by simp
    next
      case b
      then have "rx_lang r []" "rx_lang s (c # w)" using Cat.IH(2) by (simp_all add: nullable_iff)
      then have "rx_lang (Cat r s) ([] @ c # w)" by (rule L_Cat)
      then show ?thesis by simp
    qed
  next
    assume "rx_lang (Cat r s) (c # w)"
    then obtain u v where uv: "c # w = u @ v" "rx_lang r u" "rx_lang s v"
      by (auto simp: rx_lang_Cat)
    show "rx_lang (deriv c (Cat r s)) w"
    proof (cases u)
      case Nil
      with uv have "nullable r" "rx_lang (deriv c s) w"
        using Cat.IH(2) by (simp_all add: nullable_iff)
      then show ?thesis by (simp add: rx_lang_Alt)
    next
      case (Cons a u')
      with uv have "rx_lang (deriv c r) u'" "w = u' @ v" using Cat.IH(1) by simp_all
      then have "rx_lang (Cat (deriv c r) s) w" using uv(3) by (auto intro: L_Cat)
      then show ?thesis by (simp add: rx_lang_Alt)
    qed
  qed
next
  case (Star r)
  show ?case
  proof
    assume "rx_lang (deriv c (Star r)) w"
    then obtain u v where "w = u @ v" "rx_lang (deriv c r) u" "rx_lang (Star r) v"
      by (auto simp: rx_lang_Cat)
    then have "rx_lang r (c # u)" "rx_lang (Star r) v" "w = u @ v" using Star.IH by simp_all
    then have "rx_lang (Star r) ((c # u) @ v)" by (intro L_StarCons)
    then show "rx_lang (Star r) (c # w)" using \<open>w = u @ v\<close> by simp
  next
    assume "rx_lang (Star r) (c # w)"
    then obtain u t where "w = u @ t" "rx_lang r (c # u)" "rx_lang (Star r) t"
      using star_cons_split by blast
    then show "rx_lang (deriv c (Star r)) w"
      using Star.IH by (auto simp: rx_lang_Cat)
  qed
qed (auto simp: rx_lang_Lit rx_lang_Class rx_lang_Range rx_lang_Alt rx_lang_Opt
      rx_lang_Eps rx_lang_Nothing)

lemma rx_test_iff: "rx_test r w \<longleftrightarrow> rx_lang r w"
  by (induction w arbitrary: r) (simp_all add: nullable_iff deriv_iff)

section \<open>Digits and numerals\<close>

lemma digit_val_digit_char: "d < 10 \<Longrightarrow> digit_val (digit_char d) = d"
  by (simp add: digit_val_def digit_char_def)

lemma is_digit_digit_char: "d < 10 \<Longrightarrow> is_digit (digit_char d)"
  by (simp add: is_digit_def digit_char_def)

lemma is_digit_val: "is_digit c \<Longrightarrow> digit_val c < 10 \<and> digit_char (digit_val c) = c"
  by (auto simp: is_digit_def digit_val_def digit_char_def)

lemma is_digit_not_dot: "is_digit c \<Longrightarrow> c \<noteq> CHR ''.''"
  by (auto simp: is_digit_def)

lemma radix_val_snoc: "radix_val r (s @ [c]) = r * radix_val r s + digit_val c"
  by (simp add: radix_val_def)

lemma radix_val_Nil: "radix_val r [] = 0"
  by (simp add: radix_val_def)

lemma radix_str_digits:
  "2 \<le> r \<Longrightarrow> r \<le> 10 \<Longrightarrow> c \<in> set (radix_str r n) \<Longrightarrow> \<exists>d<r. c = digit_char d"
proof (induction r n rule: radix_str.induct)
  case (1 r n)
  show ?case
  proof (cases "n < r")
    case True
    with 1 show ?thesis by (auto simp: radix_str.simps [of r n])
  next
    case False
    then have eq: "radix_str r n = radix_str r (n div r) @ [digit_char (n mod r)]"
      using 1(2) by (subst radix_str.simps) simp
    have m: "n mod r < r" using 1(2) by simp
    from 1(4) have "c \<in> set (radix_str r (n div r)) \<or> c = digit_char (n mod r)"
      by (subst (asm) eq) auto
    then show ?thesis
    proof
      assume "c \<in> set (radix_str r (n div r))"
      then show ?thesis using 1(1) [OF _ 1(2) 1(3)] False 1(2) by simp
    next
      assume "c = digit_char (n mod r)"
      then show ?thesis using m by blast
    qed
  qed
qed

lemma radix_str_nonempty: "radix_str r n \<noteq> []"
  by (subst radix_str.simps) simp

lemma radix_val_radix_str: "2 \<le> r \<Longrightarrow> r \<le> 10 \<Longrightarrow> radix_val r (radix_str r n) = n"
proof (induction r n rule: radix_str.induct)
  case (1 r n)
  show ?case
  proof (cases "n < r")
    case True
    with 1 show ?thesis
      by (simp add: radix_str.simps [of r n] radix_val_def digit_val_digit_char)
  next
    case False
    with 1 have "radix_val r (radix_str r (n div r)) = n div r" by simp
    moreover have "n mod r < r" using 1(2) by simp
    then have "n mod r < 10" using 1(3) by linarith
    moreover have "radix_str r n = radix_str r (n div r) @ [digit_char (n mod r)]"
      using False 1(2) by (subst radix_str.simps) simp
    ultimately show ?thesis
      by (simp add: radix_val_snoc digit_val_digit_char)
  qed
qed

lemma radix_str_length: "2 \<le> r \<Longrightarrow> n < r ^ k \<Longrightarrow> 0 < k \<Longrightarrow> length (radix_str r n) \<le> k"
proof (induction r n arbitrary: k rule: radix_str.induct)
  case (1 r n)
  show ?case
  proof (cases "n < r")
    case True
    with 1 show ?thesis by (simp add: radix_str.simps [of r n])
  next
    case False
    then obtain k' where k: "k = Suc k'" using 1(4) by (cases k) auto
    have "k' > 0" using False 1(3) k by (cases k') auto
    moreover have "n div r < r ^ k'" using 1(3) k
      by (simp add: less_mult_imp_div_less mult.commute)
    ultimately have "length (radix_str r (n div r)) \<le> k'" using 1(1) [of k'] 1(2) False by simp
    moreover have "radix_str r n = radix_str r (n div r) @ [digit_char (n mod r)]"
      using False 1(2) by (subst radix_str.simps) simp
    ultimately show ?thesis using k by simp
  qed
qed

section \<open>What the address pattern admits\<close>

lemma in_range_digit:
  "in_range (CHR ''0'') hi c \<Longrightarrow> is_digit hi \<Longrightarrow> is_digit c \<and> digit_val c \<le> digit_val hi"
  by (auto simp: in_range_def is_digit_def digit_val_def)

lemma class01_digit: "c \<in> set ''01'' \<Longrightarrow> is_digit c \<and> digit_val c \<le> 1"
  by (auto simp: is_digit_def digit_val_def)

lemma digit_val_consts:
  "digit_val (CHR ''0'') = 0" "digit_val (CHR ''1'') = 1" "digit_val (CHR ''2'') = 2"
  "digit_val (CHR ''4'') = 4" "digit_val (CHR ''5'') = 5" "digit_val (CHR ''9'') = 9"
  "is_digit (CHR ''0'')" "is_digit (CHR ''1'')" "is_digit (CHR ''2'')"
  "is_digit (CHR ''4'')" "is_digit (CHR ''5'')" "is_digit (CHR ''9'')"
  by (simp_all add: digit_val_def is_digit_def)

lemma rx_lang_Lit_Cat: "rx_lang (Cat (Lit a) r) x \<longleftrightarrow> (\<exists>y. x = a # y \<and> rx_lang r y)"
  by (auto simp: rx_lang_Cat rx_lang_Lit)

lemma rx_lang_Range_Cat:
  "rx_lang (Cat (Range lo hi) r) x \<longleftrightarrow> (\<exists>c y. x = c # y \<and> in_range lo hi c \<and> rx_lang r y)"
proof
  assume "rx_lang (Cat (Range lo hi) r) x"
  then show "\<exists>c y. x = c # y \<and> in_range lo hi c \<and> rx_lang r y"
    by (auto simp: rx_lang_Cat rx_lang_Range)
next
  assume "\<exists>c y. x = c # y \<and> in_range lo hi c \<and> rx_lang r y"
  then obtain c y where "x = c # y" "in_range lo hi c" "rx_lang r y" by blast
  then have "rx_lang (Cat (Range lo hi) r) ([c] @ y)" by (intro L_Cat L_Range)
  then show "rx_lang (Cat (Range lo hi) r) x" using \<open>x = c # y\<close> by simp
qed

lemma rx_lang_OptClass_Cat:
  "rx_lang (Cat (Opt (Class cs)) r) x \<longleftrightarrow>
     rx_lang r x \<or> (\<exists>c y. x = c # y \<and> c \<in> set cs \<and> rx_lang r y)"
proof
  assume "rx_lang (Cat (Opt (Class cs)) r) x"
  then show "rx_lang r x \<or> (\<exists>c y. x = c # y \<and> c \<in> set cs \<and> rx_lang r y)"
    by (auto simp: rx_lang_Cat rx_lang_Opt rx_lang_Class)
next
  assume "rx_lang r x \<or> (\<exists>c y. x = c # y \<and> c \<in> set cs \<and> rx_lang r y)"
  then show "rx_lang (Cat (Opt (Class cs)) r) x"
  proof
    assume "rx_lang r x"
    then have "rx_lang (Cat (Opt (Class cs)) r) ([] @ x)" by (intro L_Cat L_OptNone)
    then show ?thesis by simp
  next
    assume "\<exists>c y. x = c # y \<and> c \<in> set cs \<and> rx_lang r y"
    then obtain c y where "x = c # y" "c \<in> set cs" "rx_lang r y" by blast
    then have "rx_lang (Cat (Opt (Class cs)) r) ([c] @ y)" by (intro L_Cat L_OptSome L_Class)
    then show ?thesis using \<open>x = c # y\<close> by simp
  qed
qed

lemma rx_lang_OptRange:
  "rx_lang (Opt (Range lo hi)) x \<longleftrightarrow> x = [] \<or> (\<exists>c. x = [c] \<and> in_range lo hi c)"
  by (auto simp: rx_lang_Opt rx_lang_Range)

text \<open>One to three decimal digits worth at most 255.\<close>

lemma octetRx_digits:
  assumes "rx_lang octetRx x"
  shows "x \<noteq> [] \<and> length x \<le> 3 \<and> list_all is_digit x \<and> radix_val 10 x \<le> 255"
proof -
  have d9: "\<And>c. in_range (CHR ''0'') (CHR ''9'') c \<Longrightarrow> is_digit c \<and> digit_val c \<le> 9"
    using in_range_digit [of "CHR ''9''"] by (simp add: digit_val_consts)
  have d5: "\<And>c. in_range (CHR ''0'') (CHR ''5'') c \<Longrightarrow> is_digit c \<and> digit_val c \<le> 5"
    using in_range_digit [of "CHR ''5''"] by (simp add: digit_val_consts)
  have d4: "\<And>c. in_range (CHR ''0'') (CHR ''4'') c \<Longrightarrow> is_digit c \<and> digit_val c \<le> 4"
    using in_range_digit [of "CHR ''4''"] by (simp add: digit_val_consts)
  have tail: "list_all is_digit y \<and> 1 \<le> length y \<and> length y \<le> 2 \<and> radix_val 10 y \<le> 99"
    if "rx_lang (Cat (Range CHR ''0'' CHR ''9'') (Opt (Range CHR ''0'' CHR ''9''))) y" for y
  proof -
    from that obtain c q where y: "y = c # q" "in_range (CHR ''0'') (CHR ''9'') c"
      "q = [] \<or> (\<exists>e. q = [e] \<and> in_range (CHR ''0'') (CHR ''9'') e)"
      unfolding rx_lang_Range_Cat rx_lang_OptRange by blast
    from y(3) show ?thesis
    proof
      assume "q = []"
      with y(1) d9 [OF y(2)] show ?thesis by (simp add: radix_val_def)
    next
      assume "\<exists>e. q = [e] \<and> in_range (CHR ''0'') (CHR ''9'') e"
      then obtain e where "q = [e]" "is_digit e" "digit_val e \<le> 9" using d9 by blast
      with y(1) d9 [OF y(2)] show ?thesis by (simp add: radix_val_def)
    qed
  qed
  from assms consider
      (a) "rx_lang (Cat (Lit CHR ''2'') (Cat (Lit CHR ''5'') (Range CHR ''0'' CHR ''5''))) x"
    | (b) "rx_lang (Cat (Lit CHR ''2'') (Cat (Range CHR ''0'' CHR ''4'') (Range CHR ''0'' CHR ''9''))) x"
    | (c) "rx_lang (Cat (Opt (Class ''01'')) (Cat (Range CHR ''0'' CHR ''9'') (Opt (Range CHR ''0'' CHR ''9'')))) x"
    unfolding octetRx_def rx_lang_Alt by blast
  then show ?thesis
  proof cases
    case a
    then obtain c where "x = [CHR ''2'', CHR ''5'', c]" "in_range (CHR ''0'') (CHR ''5'') c"
      unfolding rx_lang_Lit_Cat rx_lang_Range by blast
    then show ?thesis using d5 [of c] by (simp add: radix_val_def digit_val_consts)
  next
    case b
    then obtain c d where "x = [CHR ''2'', c, d]" "in_range (CHR ''0'') (CHR ''4'') c"
      "in_range (CHR ''0'') (CHR ''9'') d"
      unfolding rx_lang_Lit_Cat rx_lang_Range_Cat rx_lang_Range by blast
    then show ?thesis using d4 [of c] d9 [of d] by (simp add: radix_val_def digit_val_consts)
  next
    case c
    then consider
        (c1) "rx_lang (Cat (Range CHR ''0'' CHR ''9'') (Opt (Range CHR ''0'' CHR ''9''))) x"
      | (c2) e y where "x = e # y" "e \<in> set ''01''"
          "rx_lang (Cat (Range CHR ''0'' CHR ''9'') (Opt (Range CHR ''0'' CHR ''9''))) y"
      unfolding rx_lang_OptClass_Cat by blast
    then show ?thesis
    proof cases
      case c1
      from tail [OF c1] show ?thesis by auto
    next
      case c2
      have "radix_val 10 (e # y) = digit_val e * 10 ^ length y + radix_val 10 y"
        using tail [OF c2(3)] by (cases y; cases "tl y") (auto simp: radix_val_def)
      moreover have "(10::nat) ^ length y \<le> 100"
        using tail [OF c2(3)] by (cases y; cases "tl y") auto
      ultimately have "radix_val 10 (e # y) \<le> 1 * 100 + 99"
        using class01_digit [OF c2(2)] tail [OF c2(3)]
        by (metis add_mono mult_le_mono)
      then show ?thesis using c2(1) class01_digit [OF c2(2)] tail [OF c2(3)] by auto
    qed
  qed
qed

section \<open>The 32-bit operators in arithmetic\<close>

lemma mod_2_32_shift:
  "4294967296 \<le> (x::int) \<Longrightarrow> x < 8589934592 \<Longrightarrow> x mod 4294967296 = x - 4294967296"
proof -
  assume a: "4294967296 \<le> x" "x < 8589934592"
  have "x mod 4294967296 = (x - 4294967296) mod 4294967296"
    by (simp add: mod_diff_right_eq [symmetric])
  also have "\<dots> = x - 4294967296" using a by (intro mod_pos_pos_trivial) simp_all
  finally show ?thesis .
qed

lemma sint_u32: "sint (w :: u32) = (if uint w < 2147483648 then uint w else uint w - 4294967296)"
proof -
  have s: "sint w = signed_take_bit 31 (uint w)"
    by (simp add: sint_uint)
  have b: "0 \<le> uint w" "uint w < 4294967296"
    using uint_lt2p [of w] by simp_all
  show ?thesis
  proof (cases "uint w < 2147483648")
    case True
    have "- 2147483648 \<le> uint w" using b by linarith
    with True have "signed_take_bit 31 (uint w) = uint w"
      using signed_take_bit_int_eq_self [of 31 "uint w"] by simp
    with s True show ?thesis by simp
  next
    case False
    have "signed_take_bit 31 (uint w) = take_bit 32 (uint w + 2147483648) - 2147483648"
      by (simp add: signed_take_bit_eq_take_bit_shift)
    also have "take_bit 32 (uint w + 2147483648) = (uint w + 2147483648) mod 4294967296"
      by (simp add: take_bit_eq_mod)
    also have "\<dots> = uint w + 2147483648 - 4294967296"
      using False b by (intro mod_2_32_shift) simp_all
    finally show ?thesis using s False by simp
  qed
qed

lemma uint_word_of_int_u32: "uint (word_of_int n :: u32) = n mod 4294967296"
  by (simp add: uint_word_of_int)

lemma js_ushr_arith: "k < 32 \<Longrightarrow> js_ushr n k = (n mod 4294967296) div 2 ^ k"
proof -
  assume "k < 32"
  have "uint (drop_bit k (word_of_int n :: u32)) = drop_bit k (take_bit 32 (uint (word_of_int n :: u32)))"
    by (simp add: unsigned_drop_bit_eq)
  also have "\<dots> = (n mod 4294967296) div 2 ^ k"
    by (simp add: drop_bit_eq_div take_bit_eq_mod uint_word_of_int_u32)
  finally show ?thesis using \<open>k < 32\<close> by (simp add: js_ushr_def)
qed

lemma js_and_255: "js_and x 255 = x mod 256"
proof -
  have "(255 :: u32) = mask 8" by (simp add: mask_eq_exp_minus_1)
  then have "(word_of_int x :: u32) AND 255 = take_bit 8 (word_of_int x)"
    by (simp add: take_bit_eq_mask)
  then have "uint ((word_of_int x :: u32) AND 255) = take_bit 8 (uint (word_of_int x :: u32))"
    by (simp add: unsigned_take_bit_eq)
  also have "\<dots> = x mod 256"
    by (simp add: take_bit_eq_mod uint_word_of_int_u32 mod_mod_cancel)
  finally have u: "uint ((word_of_int x :: u32) AND 255) = x mod 256" .
  moreover have "x mod 256 < 256" "0 \<le> x mod 256" by simp_all
  ultimately show ?thesis
    by (simp add: js_and_def sint_u32)
qed

lemma js_shl_arith:
  "k < 32 \<Longrightarrow> js_shl a k =
     (let u = (a * 2 ^ k) mod 4294967296 in if u < 2147483648 then u else u - 4294967296)"
proof -
  assume k: "k < 32"
  have "push_bit k (word_of_int a :: u32) = word_of_int (a * 2 ^ k)"
    by (simp add: push_bit_eq_mult)
  then have "uint (push_bit k (word_of_int a :: u32)) = uint (word_of_int (a * 2 ^ k) :: u32)"
    by (simp only:)
  also have "\<dots> = (a * 2 ^ k) mod 4294967296"
    by (rule uint_word_of_int_u32)
  finally show ?thesis using k
    by (simp add: js_shl_def sint_u32 Let_def)
qed

lemma js_shl_small:
  assumes "0 \<le> a" "a * 2 ^ k < 2147483648" "k < 32"
  shows "js_shl a k = a * 2 ^ k"
proof -
  have "(a * 2 ^ k) mod 4294967296 = a * 2 ^ k"
    using assms by (intro mod_pos_pos_trivial) simp_all
  then show ?thesis using assms by (simp add: js_shl_arith)
qed

lemma js_shl_24:
  assumes "0 \<le> a" "a \<le> 255"
  shows "js_shl a 24 = (if a < 128 then a else a - 256) * 16777216"
proof -
  have "(a * 16777216) mod 4294967296 = a * 16777216"
    using assms by (intro mod_pos_pos_trivial) simp_all
  then show ?thesis using assms by (simp add: js_shl_arith)
qed

section \<open>Splitting, joining and reading octets\<close>

lemma split_dot_nodot: "CHR ''.'' \<notin> set a \<Longrightarrow> split_dot a = [a]"
  by (induction a) auto

lemma split_dot_append:
  "CHR ''.'' \<notin> set a \<Longrightarrow> split_dot (a @ CHR ''.'' # rest) = a # split_dot rest"
  by (induction a) auto

lemma split_join4:
  assumes "CHR ''.'' \<notin> set a" "CHR ''.'' \<notin> set b" "CHR ''.'' \<notin> set c" "CHR ''.'' \<notin> set d"
  shows "split_dot (join_dot [a, b, c, d]) = [a, b, c, d]"
  using assms by (simp add: split_dot_append split_dot_nodot)

lemma digits_no_dot: "list_all is_digit x \<Longrightarrow> CHR ''.'' \<notin> set x"
  using is_digit_not_dot by (auto simp: list_all_iff)

lemma radix_str_all_digits: "list_all is_digit (radix_str 10 n)"
proof -
  have "is_digit c" if "c \<in> set (radix_str 10 n)" for c
    using radix_str_digits [of 10 c n] that is_digit_digit_char by auto
  then show ?thesis by (simp add: list_all_iff)
qed

lemma Number_js_radix_str: "n < 1000 \<Longrightarrow> Number_js (radix_str 10 n) = Some (int n)"
proof -
  assume "n < 1000"
  then have "length (radix_str 10 n) \<le> 3"
    using radix_str_length [of 10 n 3] by simp
  then show ?thesis
    by (simp add: Number_js_def radix_str_nonempty radix_str_all_digits radix_val_radix_str)
qed

lemma Number_toString_nonneg: "0 \<le> n \<Longrightarrow> Number_toString r n = radix_str r (nat n)"
  by (simp add: Number_toString_def)

text \<open>The four bytes that \<open>numeroAIp\<close> prints.\<close>

lemma numeroAIp_bytes:
  "numeroAIp n =
     join_dot [radix_str 10 (nat ((n mod 4294967296) div 16777216 mod 256)),
               radix_str 10 (nat ((n mod 4294967296) div 65536 mod 256)),
               radix_str 10 (nat ((n mod 4294967296) div 256 mod 256)),
               radix_str 10 (nat (n mod 256))]"
  by (simp add: numeroAIp_def js_and_255 js_ushr_arith Number_toString_nonneg)

lemma numeroAIp_mod: "numeroAIp (n mod 4294967296) = numeroAIp n"
  by (simp add: numeroAIp_bytes mod_mod_cancel)

lemma octetos_de_join4:
  assumes "b0 < 1000" "b1 < 1000" "b2 < 1000" "b3 < 1000"
  shows "octetos_de (join_dot [radix_str 10 b0, radix_str 10 b1, radix_str 10 b2, radix_str 10 b3])
         = Some [int b0, int b1, int b2, int b3]"
proof -
  have nd: "CHR ''.'' \<notin> set (radix_str 10 k)" for k
    using radix_str_all_digits digits_no_dot by blast
  have "split_dot (join_dot [radix_str 10 b0, radix_str 10 b1, radix_str 10 b2, radix_str 10 b3])
        = [radix_str 10 b0, radix_str 10 b1, radix_str 10 b2, radix_str 10 b3]"
    by (rule split_join4) (rule nd)+
  then show ?thesis using assms
    by (simp add: octetos_de_def Number_js_radix_str)
qed

lemma octetos_de_numeroAIp:
  "octetos_de (numeroAIp n) =
     Some [(n mod 4294967296) div 16777216 mod 256, (n mod 4294967296) div 65536 mod 256,
           (n mod 4294967296) div 256 mod 256, n mod 256]"
proof -
  define b0 where "b0 = nat ((n mod 4294967296) div 16777216 mod 256)"
  define b1 where "b1 = nat ((n mod 4294967296) div 65536 mod 256)"
  define b2 where "b2 = nat ((n mod 4294967296) div 256 mod 256)"
  define b3 where "b3 = nat (n mod 256)"
  have lt: "nat (x mod 256) < 1000" for x :: int
    using pos_mod_bound [of 256 x] by linarith
  have "numeroAIp n = join_dot [radix_str 10 b0, radix_str 10 b1, radix_str 10 b2, radix_str 10 b3]"
    unfolding b0_def b1_def b2_def b3_def by (rule numeroAIp_bytes)
  moreover have "b0 < 1000" "b1 < 1000" "b2 < 1000" "b3 < 1000"
    unfolding b0_def b1_def b2_def b3_def by (rule lt)+
  ultimately have "octetos_de (numeroAIp n) = Some [int b0, int b1, int b2, int b3]"
    by (simp only: octetos_de_join4)
  then show ?thesis
    unfolding b0_def b1_def b2_def b3_def by simp
qed

section \<open>From the string to the number and back\<close>

lemma div_65536: "(u::int) div 65536 = u div 256 div 256"
proof -
  have "u div (256 * 256) = u div 256 div 256" by (rule zdiv_zmult2_eq) simp
  then show ?thesis by simp
qed

lemma div_16777216: "(u::int) div 16777216 = u div 256 div 256 div 256"
proof -
  have "u div (65536 * 256) = u div 65536 div 256" by (rule zdiv_zmult2_eq) simp
  then show ?thesis by (simp add: div_65536)
qed

lemma decompose_gen:
  fixes u q1 q2 q3 r0 r1 r2 :: int
  assumes "u = 256 * q1 + r0" "q1 = 256 * q2 + r1" "q2 = 256 * q3 + r2"
    and "0 \<le> r0" "r0 < 256" "0 \<le> r1" "r1 < 256" "0 \<le> r2" "r2 < 256"
    and "0 \<le> u" "u < 4294967296"
  shows "0 \<le> q3" "q3 < 256"
    and "u = q3 * 16777216 + r2 * 65536 + r1 * 256 + r0"
    and "q3 < 128 \<longleftrightarrow> u < 2147483648"
  using assms by linarith+

lemma bytes_decompose:
  fixes u :: int
  assumes "0 \<le> u" "u < 4294967296"
  shows "u = (u div 16777216 mod 256) * 16777216 + (u div 65536 mod 256) * 65536
             + (u div 256 mod 256) * 256 + u mod 256"
    and "u div 16777216 mod 256 = u div 16777216"
    and "u div 16777216 < 128 \<longleftrightarrow> u < 2147483648"
proof -
  define q1 where "q1 = u div 256"
  define q2 where "q2 = q1 div 256"
  define q3 where "q3 = q2 div 256"
  define r0 where "r0 = u mod 256"
  define r1 where "r1 = q1 mod 256"
  define r2 where "r2 = q2 mod 256"
  have e: "u = 256 * q1 + r0" "q1 = 256 * q2 + r1" "q2 = 256 * q3 + r2"
    unfolding q1_def q2_def q3_def r0_def r1_def r2_def by simp_all
  have m: "0 \<le> r0" "r0 < 256" "0 \<le> r1" "r1 < 256" "0 \<le> r2" "r2 < 256"
    unfolding r0_def r1_def r2_def by simp_all
  note g = decompose_gen [OF e m assms]
  have d: "u div 65536 = q2" "u div 16777216 = q3" "u div 256 = q1"
    by (simp_all add: div_65536 div_16777216 q1_def q2_def q3_def)
  have q3m: "q3 mod 256 = q3" using g(1,2) by (simp add: mod_pos_pos_trivial)
  show "u div 16777216 mod 256 = u div 16777216" unfolding d by (rule q3m)
  show "u = (u div 16777216 mod 256) * 16777216 + (u div 65536 mod 256) * 65536
             + (u div 256 mod 256) * 256 + u mod 256"
    unfolding d q3m r0_def [symmetric] r1_def [symmetric] r2_def [symmetric] by (rule g(3))
  show "u div 16777216 < 128 \<longleftrightarrow> u < 2147483648"
    unfolding d by (rule g(4))
qed

lemma pack_octets:
  fixes b0 b1 b2 b3 :: int
  assumes "0 \<le> b0" "b0 \<le> 255" "0 \<le> b1" "b1 \<le> 255" "0 \<le> b2" "b2 \<le> 255" "0 \<le> b3" "b3 \<le> 255"
  shows "js_shl b0 24 + js_shl b1 16 + js_shl b2 8 + b3 =
         (if b0 < 128 then b0 else b0 - 256) * 16777216 + b1 * 65536 + b2 * 256 + b3"
proof -
  have "js_shl b1 16 = b1 * 2 ^ 16" using assms by (intro js_shl_small) simp_all
  moreover have "js_shl b2 8 = b2 * 2 ^ 8" using assms by (intro js_shl_small) simp_all
  ultimately show ?thesis using assms by (simp add: js_shl_24)
qed

lemma ipANumero_octets:
  "octetos_de s = Some [b0, b1, b2, b3] \<Longrightarrow>
   ipANumero s = Some (js_shl b0 24 + js_shl b1 16 + js_shl b2 8 + b3)"
  by (simp add: ipANumero_def)

lemma byte_bounds: "0 \<le> (x::int) mod 256" "(x::int) mod 256 \<le> 255"
  using pos_mod_bound [of 256 x] by simp_all

lemma signed_of_bytes:
  fixes u :: int
  assumes "0 \<le> u" "u < 4294967296"
  shows "(if u div 16777216 mod 256 < 128 then u div 16777216 mod 256
          else u div 16777216 mod 256 - 256) * 16777216
         + (u div 65536 mod 256) * 65536 + (u div 256 mod 256) * 256 + u mod 256
         = (if u < 2147483648 then u else u - 4294967296)"
proof -
  define b0 where "b0 = u div 16777216 mod 256"
  define b1 where "b1 = u div 65536 mod 256"
  define b2 where "b2 = u div 256 mod 256"
  define b3 where "b3 = u mod 256"
  have d1: "u = b0 * 16777216 + b1 * 65536 + b2 * 256 + b3"
    unfolding b0_def b1_def b2_def b3_def by (rule bytes_decompose(1) [OF assms])
  have d2: "b0 < 128 \<longleftrightarrow> u < 2147483648"
    unfolding b0_def bytes_decompose(2) [OF assms] by (rule bytes_decompose(3) [OF assms])
  note d = d1 d2
  have "(if b0 < 128 then b0 else b0 - 256) * 16777216 + b1 * 65536 + b2 * 256 + b3
        = (if u < 2147483648 then u else u - 4294967296)"
  proof (cases "u < 2147483648")
    case True
    then have c: "b0 < 128" using d(2) by simp
    show ?thesis unfolding if_P [OF c] if_P [OF True] using d(1) by linarith
  next
    case False
    then have c: "\<not> b0 < 128" using d(2) by simp
    show ?thesis unfolding if_not_P [OF c] if_not_P [OF False] using d(1)
      by (simp add: algebra_simps)
  qed
  then show ?thesis unfolding b0_def b1_def b2_def b3_def .
qed

lemma ipANumero_numeroAIp: "ipANumero (numeroAIp n) = Some (sint (word_of_int n :: u32))"
proof -
  define u where "u = n mod 4294967296"
  have u: "0 \<le> u" "u < 4294967296" by (simp_all add: u_def)
  define b0 where "b0 = u div 16777216 mod 256"
  define b1 where "b1 = u div 65536 mod 256"
  define b2 where "b2 = u div 256 mod 256"
  define b3 where "b3 = u mod 256"
  have r: "0 \<le> b0" "b0 \<le> 255" "0 \<le> b1" "b1 \<le> 255" "0 \<le> b2" "b2 \<le> 255" "0 \<le> b3" "b3 \<le> 255"
    unfolding b0_def b1_def b2_def b3_def by (rule byte_bounds)+
  have "n mod 256 = b3" by (simp add: b3_def u_def mod_mod_cancel)
  then have "octetos_de (numeroAIp n) = Some [b0, b1, b2, b3]"
    unfolding b0_def b1_def b2_def u_def using octetos_de_numeroAIp [of n] by (simp only:)
  then have "ipANumero (numeroAIp n) = Some (js_shl b0 24 + js_shl b1 16 + js_shl b2 8 + b3)"
    by (rule ipANumero_octets)
  also have "js_shl b0 24 + js_shl b1 16 + js_shl b2 8 + b3 =
      (if b0 < 128 then b0 else b0 - 256) * 16777216 + b1 * 65536 + b2 * 256 + b3"
    using r by (rule pack_octets)
  also have "\<dots> = (if u < 2147483648 then u else u - 4294967296)"
    unfolding b0_def b1_def b2_def b3_def using u by (rule signed_of_bytes)
  also have "\<dots> = sint (word_of_int n :: u32)"
    unfolding u_def by (simp only: sint_u32 uint_word_of_int_u32)
  finally show ?thesis .
qed

lemma divmod_256:
  fixes q r :: int
  assumes "0 \<le> r" "r < 256"
  shows "(256 * q + r) div 256 = q" "(256 * q + r) mod 256 = r"
  using assms by (simp_all add: div_pos_pos_trivial mod_pos_pos_trivial)

lemma bytes_of_pack:
  fixes b0 b1 b2 b3 :: int
  assumes "0 \<le> b0" "b0 \<le> 255" "0 \<le> b1" "b1 \<le> 255" "0 \<le> b2" "b2 \<le> 255" "0 \<le> b3" "b3 \<le> 255"
  defines "u \<equiv> b0 * 16777216 + b1 * 65536 + b2 * 256 + b3"
  shows "0 \<le> u" "u < 4294967296"
    and "u div 16777216 mod 256 = b0" "u div 65536 mod 256 = b1" "u div 256 mod 256 = b2"
      "u mod 256 = b3"
proof -
  define q1 where "q1 = b0 * 65536 + b1 * 256 + b2"
  define q2 where "q2 = b0 * 256 + b1"
  have e: "u = 256 * q1 + b3" "q1 = 256 * q2 + b2" "q2 = 256 * b0 + b1"
    unfolding u_def q1_def q2_def by simp_all
  show "0 \<le> u" "u < 4294967296" unfolding u_def using assms by linarith+
  have d1: "u div 256 = q1" "u mod 256 = b3"
    unfolding e(1) using assms by (simp_all add: divmod_256)
  have d2: "q1 div 256 = q2" "q1 mod 256 = b2"
    unfolding e(2) using assms by (simp_all add: divmod_256)
  have d3: "q2 div 256 = b0" "q2 mod 256 = b1"
    unfolding e(3) using assms by (simp_all add: divmod_256)
  have b0m: "b0 mod 256 = b0" using assms by (simp add: mod_pos_pos_trivial)
  show "u mod 256 = b3" by (rule d1(2))
  show "u div 256 mod 256 = b2" unfolding d1(1) by (rule d2(2))
  show "u div 65536 mod 256 = b1" unfolding div_65536 d1(1) d2(1) by (rule d3(2))
  show "u div 16777216 mod 256 = b0" unfolding div_16777216 d1(1) d2(1) d3(1) by (rule b0m)
qed

text \<open>The number that \<open>ipANumero\<close> computes from four octets, modulo \<open>2^32\<close>.\<close>

lemma pack_mod:
  fixes b0 b1 b2 b3 :: int
  assumes "0 \<le> b0" "b0 \<le> 255" "0 \<le> b1" "b1 \<le> 255" "0 \<le> b2" "b2 \<le> 255" "0 \<le> b3" "b3 \<le> 255"
  shows "(js_shl b0 24 + js_shl b1 16 + js_shl b2 8 + b3) mod 4294967296
         = b0 * 16777216 + b1 * 65536 + b2 * 256 + b3"
proof -
  define u where "u = b0 * 16777216 + b1 * 65536 + b2 * 256 + b3"
  define v where "v = js_shl b0 24 + js_shl b1 16 + js_shl b2 8 + b3"
  have u: "0 \<le> u" "u < 4294967296" unfolding u_def using bytes_of_pack(1,2) [OF assms] by simp_all
  have um: "u mod 4294967296 = u" using u by (simp add: mod_pos_pos_trivial)
  have "v = u \<or> v = u - 4294967296"
    unfolding v_def pack_octets [OF assms] u_def by (cases "b0 < 128") (simp_all add: algebra_simps)
  then have "v mod 4294967296 = u"
  proof
    assume "v = u"
    then show ?thesis using um by simp
  next
    assume "v = u - 4294967296"
    moreover have "(u - 4294967296) mod 4294967296 = u mod 4294967296"
      by (simp add: mod_diff_right_eq [symmetric])
    ultimately show ?thesis using um by simp
  qed
  then show ?thesis unfolding u_def v_def .
qed

lemma numeroAIp_pack:
  fixes b0 b1 b2 b3 :: int
  assumes "0 \<le> b0" "b0 \<le> 255" "0 \<le> b1" "b1 \<le> 255" "0 \<le> b2" "b2 \<le> 255" "0 \<le> b3" "b3 \<le> 255"
  shows "numeroAIp (js_shl b0 24 + js_shl b1 16 + js_shl b2 8 + b3)
         = join_dot [radix_str 10 (nat b0), radix_str 10 (nat b1), radix_str 10 (nat b2),
                     radix_str 10 (nat b3)]"
proof -
  define v where "v = js_shl b0 24 + js_shl b1 16 + js_shl b2 8 + b3"
  define u where "u = b0 * 16777216 + b1 * 65536 + b2 * 256 + b3"
  have vu: "v mod 4294967296 = u" unfolding v_def u_def by (rule pack_mod [OF assms])
  have "v mod 256 = (v mod 4294967296) mod 256" by (simp add: mod_mod_cancel)
  then have v3: "v mod 256 = u mod 256" unfolding vu .
  note b = bytes_of_pack(3-6) [OF assms, folded u_def]
  show ?thesis
    unfolding v_def [symmetric] numeroAIp_bytes [of v] vu v3 b ..
qed

section \<open>The shape of an accepted address\<close>

lemma rx_lang_Cat_Lit_Cat:
  "rx_lang (Cat r (Cat (Lit c) t)) s \<longleftrightarrow>
     (\<exists>a y. s = a @ c # y \<and> rx_lang r a \<and> rx_lang t y)"
  unfolding rx_lang_Cat [of r] rx_lang_Lit_Cat by blast

lemma ipRegex_parts:
  assumes "rx_lang ipRegex s"
  obtains a b c d where "s = join_dot [a, b, c, d]"
    "rx_lang octetRx a" "rx_lang octetRx b" "rx_lang octetRx c" "rx_lang octetRx d"
proof -
  from assms obtain a y1 where 1: "s = a @ CHR ''.'' # y1" "rx_lang octetRx a"
    "rx_lang (Cat octetRx (Cat (Lit CHR ''.'') (Cat octetRx (Cat (Lit CHR ''.'') octetRx)))) y1"
    unfolding ipRegex_def rx_lang_Cat_Lit_Cat [of octetRx] by blast
  from 1(3) obtain b y2 where 2: "y1 = b @ CHR ''.'' # y2" "rx_lang octetRx b"
    "rx_lang (Cat octetRx (Cat (Lit CHR ''.'') octetRx)) y2"
    unfolding rx_lang_Cat_Lit_Cat [of octetRx] by blast
  from 2(3) obtain c d where 3: "y2 = c @ CHR ''.'' # d" "rx_lang octetRx c" "rx_lang octetRx d"
    unfolding rx_lang_Cat_Lit_Cat [of octetRx] by blast
  have "s = join_dot [a, b, c, d]" using 1(1) 2(1) 3(1) by simp
  then show ?thesis using that 1(2) 2(2) 3(2,3) by blast
qed

lemma Number_js_octet:
  assumes "rx_lang octetRx x"
  shows "Number_js x = Some (int (radix_val 10 x))"
  using octetRx_digits [OF assms] by (simp add: Number_js_def)

lemma octet_no_dot: "rx_lang octetRx x \<Longrightarrow> CHR ''.'' \<notin> set x"
  using octetRx_digits digits_no_dot by blast

lemma octetos_de_parts:
  assumes "rx_lang octetRx a" "rx_lang octetRx b" "rx_lang octetRx c" "rx_lang octetRx d"
  shows "split_dot (join_dot [a, b, c, d]) = [a, b, c, d]"
    and "octetos_de (join_dot [a, b, c, d]) =
          Some [int (radix_val 10 a), int (radix_val 10 b), int (radix_val 10 c),
                int (radix_val 10 d)]"
proof -
  show s: "split_dot (join_dot [a, b, c, d]) = [a, b, c, d]"
    using assms by (intro split_join4 octet_no_dot)
  show "octetos_de (join_dot [a, b, c, d]) =
          Some [int (radix_val 10 a), int (radix_val 10 b), int (radix_val 10 c),
                int (radix_val 10 d)]"
    unfolding octetos_de_def s using assms by (simp add: Number_js_octet)
qed

text \<open>After the pattern has matched, \<open>Number\<close> reads every piece: the \<open>None\<close> branch of
  the validators is dead.\<close>

lemma ipRegex_octetos:
  assumes "rx_test ipRegex s"
  obtains a b c d where "s = join_dot [a, b, c, d]"
    "rx_lang octetRx a" "rx_lang octetRx b" "rx_lang octetRx c" "rx_lang octetRx d"
    "octetos_de s = Some [int (radix_val 10 a), int (radix_val 10 b), int (radix_val 10 c),
                          int (radix_val 10 d)]"
proof -
  from assms have "rx_lang ipRegex s" by (simp add: rx_test_iff)
  then obtain a b c d where p: "s = join_dot [a, b, c, d]"
    "rx_lang octetRx a" "rx_lang octetRx b" "rx_lang octetRx c" "rx_lang octetRx d"
    by (rule ipRegex_parts)
  from octetos_de_parts(2) [OF p(2-5)] p(1) that p(2-5) show ?thesis by blast
qed

lemma octet_value_bounds:
  assumes "rx_lang octetRx x"
  shows "0 \<le> int (radix_val 10 x)" "int (radix_val 10 x) \<le> 255"
  using octetRx_digits [OF assms] by simp_all

lemma ipANumero_parts:
  assumes "rx_lang octetRx a" "rx_lang octetRx b" "rx_lang octetRx c" "rx_lang octetRx d"
  shows "ipANumero (join_dot [a, b, c, d]) =
           Some (js_shl (int (radix_val 10 a)) 24 + js_shl (int (radix_val 10 b)) 16
                 + js_shl (int (radix_val 10 c)) 8 + int (radix_val 10 d))"
    and "numeroAIp (js_shl (int (radix_val 10 a)) 24 + js_shl (int (radix_val 10 b)) 16
                 + js_shl (int (radix_val 10 c)) 8 + int (radix_val 10 d))
         = join_dot [radix_str 10 (radix_val 10 a), radix_str 10 (radix_val 10 b),
                     radix_str 10 (radix_val 10 c), radix_str 10 (radix_val 10 d)]"
proof -
  show "ipANumero (join_dot [a, b, c, d]) =
           Some (js_shl (int (radix_val 10 a)) 24 + js_shl (int (radix_val 10 b)) 16
                 + js_shl (int (radix_val 10 c)) 8 + int (radix_val 10 d))"
    by (rule ipANumero_octets) (rule octetos_de_parts(2) [OF assms])
  have "numeroAIp (js_shl (int (radix_val 10 a)) 24 + js_shl (int (radix_val 10 b)) 16
                 + js_shl (int (radix_val 10 c)) 8 + int (radix_val 10 d))
         = join_dot [radix_str 10 (nat (int (radix_val 10 a))), radix_str 10 (nat (int (radix_val 10 b))),
                     radix_str 10 (nat (int (radix_val 10 c))), radix_str 10 (nat (int (radix_val 10 d)))]"
    by (intro numeroAIp_pack octet_value_bounds assms)
  then show "numeroAIp (js_shl (int (radix_val 10 a)) 24 + js_shl (int (radix_val 10 b)) 16
                 + js_shl (int (radix_val 10 c)) 8 + int (radix_val 10 d))
         = join_dot [radix_str 10 (radix_val 10 a), radix_str 10 (radix_val 10 b),
                     radix_str 10 (radix_val 10 c), radix_str 10 (radix_val 10 d)]"
    by simp
qed

section \<open>Printing a numeral that was read\<close>

lemma radix_str_small: "n < r \<Longrightarrow> radix_str r n = [digit_char n]"
  by (subst radix_str.simps) simp

lemma radix_str_step:
  "2 \<le> r \<Longrightarrow> r \<le> n \<Longrightarrow> radix_str r n = radix_str r (n div r) @ [digit_char (n mod r)]"
  by (subst radix_str.simps) simp

lemma radix_str_shift:
  assumes "2 \<le> r" "0 < q" "d < r"
  shows "radix_str r (r * q + d) = radix_str r q @ [digit_char d]"
proof -
  have "r \<le> r * q + d" using assms by (cases q) auto
  moreover have "(r * q + d) div r = q" "(r * q + d) mod r = d" using assms by simp_all
  ultimately show ?thesis using radix_str_step [of r "r * q + d"] assms by simp
qed

lemma digit_char_0: "digit_char 0 = CHR ''0''"
  by (simp add: digit_char_def char_of_def bit_iff_odd)

text \<open>Read and printed again, a numeral comes back without its leading zeros.\<close>

lemma pad_radix_str_val:
  assumes "2 \<le> r" "r \<le> 10" "p \<noteq> []" "\<forall>c\<in>set p. is_digit c \<and> digit_val c < r"
  shows "padStart (length p) (CHR ''0'') (radix_str r (radix_val r p)) = p"
  using assms(3,4)
proof (induction p rule: rev_induct)
  case Nil
  then show ?case by simp
next
  case (snoc c q)
  have c: "is_digit c" "digit_val c < r" "digit_char (digit_val c) = c"
    using snoc.prems is_digit_val by auto
  show ?case
  proof (cases "q = []")
    case True
    then show ?thesis using c
      by (simp add: radix_val_def radix_str_small padStart_def)
  next
    case False
    then have ih: "padStart (length q) (CHR ''0'') (radix_str r (radix_val r q)) = q"
      using snoc by simp
    show ?thesis
    proof (cases "radix_val r q = 0")
      case True
      then have "q = replicate (length q) (CHR ''0'')"
        using ih False assms(1)
        by (simp add: radix_str_small padStart_def digit_char_0 replicate_append_same
            flip: replicate_Suc)
      then have "q @ [c] = replicate (length q) (CHR ''0'') @ [c]" by simp
      moreover have "radix_str r (radix_val r (q @ [c])) = [c]"
        using True c by (simp add: radix_val_snoc radix_str_small)
      ultimately show ?thesis by (simp add: padStart_def)
    next
      case False
      then have "radix_str r (radix_val r (q @ [c])) = radix_str r (radix_val r q) @ [c]"
        using c assms(1) by (simp add: radix_val_snoc radix_str_shift)
      then show ?thesis using ih
        by (simp add: padStart_def flip: append_assoc)
    qed
  qed
qed

lemma digit_char_nonzero: "0 < d \<Longrightarrow> d < 10 \<Longrightarrow> digit_char d \<noteq> CHR ''0''"
  using digit_val_digit_char [of d] by (auto simp: digit_val_def)

lemma radix_str_no_leading_zero:
  "2 \<le> r \<Longrightarrow> r \<le> 10 \<Longrightarrow> length (radix_str r n) = 1 \<or> hd (radix_str r n) \<noteq> CHR ''0''"
proof (induction r n rule: radix_str.induct)
  case (1 r n)
  show ?case
  proof (cases "n < r")
    case True
    then show ?thesis by (simp add: radix_str_small)
  next
    case False
    then have s: "radix_str r n = radix_str r (n div r) @ [digit_char (n mod r)]"
      using 1(2) by (simp add: radix_str_step)
    have pos: "0 < n div r" using False 1(2) by (simp add: div_greater_zero_iff)
    have "hd (radix_str r (n div r)) \<noteq> CHR ''0''"
    proof (cases "n div r < r")
      case True
      then show ?thesis using pos 1(3) by (simp add: radix_str_small digit_char_nonzero)
    next
      case False
      then have "length (radix_str r (n div r)) \<noteq> 1"
        using 1(2) radix_str_nonempty [of r "n div r div r"]
        by (simp add: radix_str_step [of r "n div r"])
      then show ?thesis using 1(1) [OF _ 1(2) 1(3)] \<open>\<not> n < r\<close> 1(2) by simp
    qed
    then show ?thesis unfolding s using radix_str_nonempty [of r "n div r"] by simp
  qed
qed

lemma canonical_iff:
  assumes "p \<noteq> []" "list_all is_digit p"
  shows "radix_str 10 (radix_val 10 p) = p \<longleftrightarrow> (length p = 1 \<or> hd p \<noteq> CHR ''0'')"
proof
  assume "radix_str 10 (radix_val 10 p) = p"
  then show "length p = 1 \<or> hd p \<noteq> CHR ''0''"
    using radix_str_no_leading_zero [of 10 "radix_val 10 p"] by simp
next
  assume nz: "length p = 1 \<or> hd p \<noteq> CHR ''0''"
  define x where "x = radix_str 10 (radix_val 10 p)"
  have "\<forall>c\<in>set p. is_digit c \<and> digit_val c < 10"
    using assms(2) is_digit_val by (auto simp: list_all_iff)
  then have pad: "replicate (length p - length x) (CHR ''0'') @ x = p"
    using pad_radix_str_val [of 10 p] assms(1) by (simp add: padStart_def x_def)
  have x: "x \<noteq> []" unfolding x_def by (rule radix_str_nonempty)
  have "length p - length x = 0"
  proof (rule ccontr)
    assume "length p - length x \<noteq> 0"
    then obtain k where k: "length p - length x = Suc k" by (cases "length p - length x") auto
    with pad have "hd p = CHR ''0''" by (metis hd_append2 hd_replicate replicate_empty nat.distinct(1) append_Cons list.sel(1) replicate_Suc)
    moreover have "length p \<noteq> 1" using k x by (cases x) auto
    ultimately show False using nz by simp
  qed
  with pad show "radix_str 10 (radix_val 10 p) = p" by (simp add: x_def)
qed

lemma sint_word_of_int_id:
  "- 2147483648 \<le> n \<Longrightarrow> n < 2147483648 \<Longrightarrow> sint (word_of_int n :: u32) = n"
proof -
  assume a: "- 2147483648 \<le> n" "n < 2147483648"
  show ?thesis
  proof (cases "0 \<le> n")
    case True
    then have "n mod 4294967296 = n" using a by (simp add: mod_pos_pos_trivial)
    then show ?thesis using a by (simp add: sint_u32 uint_word_of_int_u32)
  next
    case False
    have "n mod 4294967296 = (n + 4294967296) mod 4294967296" by simp
    also have "\<dots> = n + 4294967296" using False a by (intro mod_pos_pos_trivial) simp_all
    finally show ?thesis using False a by (simp add: sint_u32 uint_word_of_int_u32)
  qed
qed

lemma pack_range:
  fixes b0 b1 b2 b3 :: int
  assumes "0 \<le> b0" "b0 \<le> 255" "0 \<le> b1" "b1 \<le> 255" "0 \<le> b2" "b2 \<le> 255" "0 \<le> b3" "b3 \<le> 255"
  shows "- 2147483648 \<le> js_shl b0 24 + js_shl b1 16 + js_shl b2 8 + b3"
    and "js_shl b0 24 + js_shl b1 16 + js_shl b2 8 + b3 < 2147483648"
  unfolding pack_octets [OF assms] using assms by (cases "b0 < 128"; simp)+

section \<open>Address to number and back\<close>

lemma esDireccionIPValida_regex: "esDireccionIPValida s \<Longrightarrow> rx_test ipRegex s"
  by (auto simp: esDireccionIPValida_def split: if_splits)

lemma join_dot4_inject:
  assumes "CHR ''.'' \<notin> set a" "CHR ''.'' \<notin> set b" "CHR ''.'' \<notin> set c" "CHR ''.'' \<notin> set d"
    and "CHR ''.'' \<notin> set a'" "CHR ''.'' \<notin> set b'" "CHR ''.'' \<notin> set c'" "CHR ''.'' \<notin> set d'"
  shows "join_dot [a, b, c, d] = join_dot [a', b', c', d'] \<longleftrightarrow> [a, b, c, d] = [a', b', c', d']"
proof
  assume "join_dot [a, b, c, d] = join_dot [a', b', c', d']"
  then have "split_dot (join_dot [a, b, c, d]) = split_dot (join_dot [a', b', c', d'])" by simp
  then show "[a, b, c, d] = [a', b', c', d']"
    unfolding split_join4 [OF assms(1-4)] split_join4 [OF assms(5-8)] .
next
  assume "[a, b, c, d] = [a', b', c', d']"
  then show "join_dot [a, b, c, d] = join_dot [a', b', c', d']" by simp
qed

text \<open>
  Claim C2, as the code has it. For every string accepted by \<open>esDireccionIPValida\<close>,
  \<open>ipANumero\<close> returns a number, and \<open>numeroAIp\<close> of that number is the string with
  every octet printed without leading zeros. It is the string itself exactly when no
  octet of more than one digit starts with a zero. Converting the printed string again
  gives the same number.
\<close>

theorem roundtrip_canonical:
  assumes "esDireccionIPValida s"
  shows "\<exists>n. ipANumero s = Some n
           \<and> numeroAIp n = join_dot (map (\<lambda>p. radix_str 10 (radix_val 10 p)) (split_dot s))
           \<and> (numeroAIp n = s \<longleftrightarrow> (\<forall>p\<in>set (split_dot s). length p = 1 \<or> hd p \<noteq> CHR ''0''))
           \<and> ipANumero (numeroAIp n) = Some n"
proof -
  from assms have "rx_test ipRegex s" by (rule esDireccionIPValida_regex)
  then obtain a b c d where p: "s = join_dot [a, b, c, d]"
    "rx_lang octetRx a" "rx_lang octetRx b" "rx_lang octetRx c" "rx_lang octetRx d"
    by (rule ipRegex_octetos)
  define n where "n = js_shl (int (radix_val 10 a)) 24 + js_shl (int (radix_val 10 b)) 16
                 + js_shl (int (radix_val 10 c)) 8 + int (radix_val 10 d)"
  have sp: "split_dot s = [a, b, c, d]" unfolding p(1) by (rule octetos_de_parts(1) [OF p(2-5)])
  have 1: "ipANumero s = Some n" unfolding p(1) n_def by (rule ipANumero_parts(1) [OF p(2-5)])
  have 2: "numeroAIp n = join_dot [radix_str 10 (radix_val 10 a), radix_str 10 (radix_val 10 b),
                     radix_str 10 (radix_val 10 c), radix_str 10 (radix_val 10 d)]"
    unfolding n_def by (rule ipANumero_parts(2) [OF p(2-5)])
  have nd: "CHR ''.'' \<notin> set (radix_str 10 k)" for k
    using radix_str_all_digits digits_no_dot by blast
  have can: "radix_str 10 (radix_val 10 x) = x \<longleftrightarrow> (length x = 1 \<or> hd x \<noteq> CHR ''0'')"
    if "rx_lang octetRx x" for x
    using octetRx_digits [OF that] by (intro canonical_iff) simp_all
  have "numeroAIp n = s \<longleftrightarrow>
        [radix_str 10 (radix_val 10 a), radix_str 10 (radix_val 10 b),
         radix_str 10 (radix_val 10 c), radix_str 10 (radix_val 10 d)] = [a, b, c, d]"
    unfolding 2 p(1) by (intro join_dot4_inject nd octet_no_dot p(2-5))
  also have "\<dots> \<longleftrightarrow> (\<forall>x\<in>set [a, b, c, d]. length x = 1 \<or> hd x \<noteq> CHR ''0'')"
    using can [OF p(2)] can [OF p(3)] can [OF p(4)] can [OF p(5)] by simp
  finally have 3: "numeroAIp n = s \<longleftrightarrow> (\<forall>p\<in>set (split_dot s). length p = 1 \<or> hd p \<noteq> CHR ''0'')"
    unfolding sp .
  have "sint (word_of_int n :: u32) = n"
    unfolding n_def by (intro sint_word_of_int_id pack_range octet_value_bounds p(2-5))
  then have 4: "ipANumero (numeroAIp n) = Some n" by (simp add: ipANumero_numeroAIp)
  have 5: "numeroAIp n = join_dot (map (\<lambda>p. radix_str 10 (radix_val 10 p)) (split_dot s))"
    unfolding sp 2 by simp
  from 1 5 3 4 show ?thesis by blast
qed

theorem roundtrip_canonical_witness:
  "esDireccionIPValida ''10.0.0.50''
   \<and> (\<exists>n. ipANumero ''10.0.0.50'' = Some n
           \<and> numeroAIp n = join_dot (map (\<lambda>p. radix_str 10 (radix_val 10 p)) (split_dot ''10.0.0.50''))
           \<and> (numeroAIp n = ''10.0.0.50'' \<longleftrightarrow>
                (\<forall>p\<in>set (split_dot ''10.0.0.50''). length p = 1 \<or> hd p \<noteq> CHR ''0''))
           \<and> ipANumero (numeroAIp n) = Some n)"
proof -
  have v: "esDireccionIPValida ''10.0.0.50''" by code_simp
  from roundtrip_canonical [OF v] v show ?thesis by blast
qed

text \<open>
  Claim C2 as stated fails: the pattern admits leading zeros, so \<open>192.168.01.1\<close> is
  accepted, and it comes back as \<open>192.168.1.1\<close>.
\<close>

theorem roundtrip_counterexample:
  "esDireccionIPValida ''192.168.01.1''
   \<and> map_option numeroAIp (ipANumero ''192.168.01.1'') = Some ''192.168.1.1''
   \<and> ''192.168.1.1'' \<noteq> ''192.168.01.1''"
  by code_simp

section \<open>Validating the complete input\<close>

lemma obtenerMensajeError_ip:
  "\<exists>m. obtenerMensajeError ''ip'' (JStr ip) = Inr m"
  by (simp add: obtenerMensajeError_def)

section \<open>Reading a host count\<close>

lemma hex_val_digit: "is_digit c \<Longrightarrow> hex_val c = Some (digit_val c)"
  by (auto simp: hex_val_def is_digit_def digit_val_def Let_def)

lemma digit_not_space: "is_digit c \<Longrightarrow> \<not> is_space c"
  by (auto simp: is_digit_def is_space_def)

lemma digit_not_sign: "is_digit c \<Longrightarrow> c \<noteq> CHR ''-'' \<and> c \<noteq> CHR ''+'' \<and> c \<noteq> CHR ''x'' \<and> c \<noteq> CHR ''X''"
  by (auto simp: is_digit_def)

lemma foldl_hex_digits:
  "list_all is_digit s \<Longrightarrow>
   foldl (\<lambda>a c. 10 * a + the (hex_val c)) k s = foldl (\<lambda>a c. 10 * a + digit_val c) k s"
  by (induction s arbitrary: k) (simp_all add: hex_val_digit)

lemma parse_digits_10:
  assumes "s \<noteq> []" "list_all is_digit s"
  shows "parse_digits 10 s = Some (int (radix_val 10 s))"
proof -
  have "\<forall>c\<in>set s. (case hex_val c of None \<Rightarrow> False | Some d \<Rightarrow> d < 10)"
    using assms(2) is_digit_val by (auto simp: list_all_iff hex_val_digit)
  then have tw: "takeWhile (\<lambda>c. case hex_val c of None \<Rightarrow> False | Some d \<Rightarrow> d < 10) s = s"
    by (simp add: takeWhile_eq_all_conv)
  show ?thesis unfolding parse_digits_def Let_def tw using assms
    by (simp add: radix_val_def foldl_hex_digits)
qed

lemma parseInt_js_digits:
  assumes "s \<noteq> []" "list_all is_digit s"
  shows "parseInt_js s = Some (int (radix_val 10 s))"
proof -
  obtain c t where s: "s = c # t" using assms(1) by (cases s) auto
  have c: "is_digit c" using assms(2) s by simp
  have t: "t \<noteq> [] \<Longrightarrow> is_digit (hd t)" using assms(2) s by (cases t) auto
  have d: "dropWhile is_space s = s" using s c digit_not_space by simp
  have h: "(take 2 s = ''0x'' \<or> take 2 s = ''0X'') = False"
    using s t digit_not_sign [of "hd t"] by (cases t) auto
  have n: "(s \<noteq> [] \<and> hd s = CHR ''-'') = False"
    and g: "(if s \<noteq> [] \<and> (hd s = CHR ''-'' \<or> hd s = CHR ''+'') then tl s else s) = s"
    using s digit_not_sign [OF c] by simp_all
  show ?thesis unfolding parseInt_js_def Let_def d n g h
    by (simp add: parse_digits_10 [OF assms])
qed

lemma parseInt_js_Number_toString: "parseInt_js (Number_toString 10 n) = Some n"
proof (cases "n < 0")
  case False
  then have "Number_toString 10 n = radix_str 10 (nat n)" by (simp add: Number_toString_def)
  then show ?thesis using False
    by (simp add: parseInt_js_digits radix_str_nonempty radix_str_all_digits radix_val_radix_str)
next
  case True
  define x where "x = radix_str 10 (nat (- n))"
  have x: "x \<noteq> []" "list_all is_digit x" "radix_val 10 x = nat (- n)"
    unfolding x_def by (simp_all add: radix_str_nonempty radix_str_all_digits radix_val_radix_str)
  obtain c t where xc: "x = c # t" using x(1) by (cases x) auto
  have c: "is_digit c" using x(2) xc by simp
  have t: "t \<noteq> [] \<Longrightarrow> is_digit (hd t)" using x(2) xc by (cases t) auto
  have h: "(take 2 x = ''0x'' \<or> take 2 x = ''0X'') = False"
    using xc t digit_not_sign [of "hd t"] by (cases t) auto
  have sp: "dropWhile is_space (CHR ''-'' # x) = CHR ''-'' # x" by (simp add: is_space_def)
  have e: "Number_toString 10 n = CHR ''-'' # x" using True by (simp add: Number_toString_def x_def)
  show ?thesis unfolding e parseInt_js_def Let_def sp
    using h parse_digits_10 [OF x(1,2)] x(3) True by simp
qed

section \<open>Binary expansions\<close>

lemma is_bit_digit: "is_bit c \<Longrightarrow> is_digit c \<and> digit_val c < 2"
  by (auto simp: is_bit_def is_digit_def digit_val_def)

lemma digit_char_1: "digit_char (Suc 0) = CHR ''1''"
  by (simp add: digit_char_def char_of_def bit_iff_odd)

lemma radix_str_2_bits: "list_all is_bit (radix_str 2 n)"
proof -
  have "is_bit c" if "c \<in> set (radix_str 2 n)" for c
  proof -
    from radix_str_digits [of 2 c n] that obtain d where "d < 2" "c = digit_char d" by auto
    then have "d = 0 \<or> d = 1" by auto
    then show ?thesis using \<open>c = digit_char d\<close> by (auto simp: is_bit_def digit_char_0 digit_char_1)
  qed
  then show ?thesis by (simp add: list_all_iff)
qed

lemma radix_val_append:
  "radix_val r (x @ y) = radix_val r x * r ^ length y + radix_val r y"
proof (induction y rule: rev_induct)
  case Nil
  then show ?case by (simp add: radix_val_def)
next
  case (snoc c y)
  have "radix_val r (x @ y @ [c]) = r * radix_val r (x @ y) + digit_val c"
    using radix_val_snoc [of r "x @ y" c] by simp
  then show ?case using snoc by (simp add: radix_val_snoc algebra_simps)
qed

lemma radix_val_zeros: "radix_val r (replicate k (CHR ''0'')) = 0"
proof (induction k)
  case 0
  then show ?case by (simp add: radix_val_def)
next
  case (Suc k)
  have "replicate (Suc k) (CHR ''0'') = replicate k (CHR ''0'') @ [CHR ''0'']"
    by (simp add: replicate_append_same)
  then have "radix_val r (replicate (Suc k) (CHR ''0'')) = r * radix_val r (replicate k (CHR ''0'')) + 0"
    by (simp only: radix_val_snoc) (simp add: digit_val_def)
  then show ?case using Suc by simp
qed

lemma radix_val_ones: "radix_val 2 (replicate k (CHR ''1'')) = 2 ^ k - 1"
proof (induction k)
  case 0
  then show ?case by (simp add: radix_val_def)
next
  case (Suc k)
  have "replicate (Suc k) (CHR ''1'') = replicate k (CHR ''1'') @ [CHR ''1'']"
    by (simp add: replicate_append_same)
  then have "radix_val 2 (replicate (Suc k) (CHR ''1'')) = 2 * radix_val 2 (replicate k (CHR ''1'')) + 1"
    by (simp only: radix_val_snoc) (simp add: digit_val_def)
  then have e: "radix_val 2 (replicate (Suc k) (CHR ''1'')) = 2 * (2 ^ k - 1) + 1"
    using Suc by simp
  define t where "t = (2::nat) ^ k"
  have "1 \<le> t" unfolding t_def by simp
  then have "2 * (t - 1) + 1 = 2 * t - 1" by linarith
  then have "2 * (2 ^ k - 1) + 1 = (2::nat) ^ Suc k - 1" unfolding t_def by simp
  with e show ?case by (simp only:)
qed

lemma radix_val_padStart:
  "radix_val r (padStart n (CHR ''0'') x) = radix_val r x"
  by (simp add: padStart_def radix_val_append radix_val_zeros)

lemma bits_replicate: "is_bit c \<Longrightarrow> list_all is_bit (replicate k c)"
  by (induction k) simp_all

text \<open>An octet below 256 expands to exactly eight binary digits that read back as it.\<close>

lemma octet_binary:
  assumes "n < 256"
  shows "length (padStart 8 (CHR ''0'') (radix_str 2 n)) = 8"
    and "list_all is_bit (padStart 8 (CHR ''0'') (radix_str 2 n))"
    and "radix_val 2 (padStart 8 (CHR ''0'') (radix_str 2 n)) = n"
proof -
  have "length (radix_str 2 n) \<le> 8" using radix_str_length [of 2 n 8] assms by simp
  then show "length (padStart 8 (CHR ''0'') (radix_str 2 n)) = 8" by (simp add: padStart_def)
  show "list_all is_bit (padStart 8 (CHR ''0'') (radix_str 2 n))"
    unfolding padStart_def list_all_append
    by (intro conjI bits_replicate radix_str_2_bits) (simp add: is_bit_def)
  show "radix_val 2 (padStart 8 (CHR ''0'') (radix_str 2 n)) = n"
    by (simp add: radix_val_padStart radix_val_radix_str)
qed

text \<open>Binary strings of one length are equal when their values are.\<close>

lemma bits_inject:
  assumes "list_all is_bit x" "list_all is_bit y" "length x = length y"
    "radix_val 2 x = radix_val 2 y"
  shows "x = y"
proof (cases "x = []")
  case True
  then show ?thesis using assms(3) by simp
next
  case False
  then have y: "y \<noteq> []" using assms(3) by auto
  have "\<forall>c\<in>set x. is_digit c \<and> digit_val c < 2" "\<forall>c\<in>set y. is_digit c \<and> digit_val c < 2"
    using assms(1,2) is_bit_digit by (auto simp: list_all_iff)
  then have px: "padStart (length x) (CHR ''0'') (radix_str 2 (radix_val 2 x)) = x"
    and py: "padStart (length y) (CHR ''0'') (radix_str 2 (radix_val 2 y)) = y"
    using pad_radix_str_val [of 2 x] pad_radix_str_val [of 2 y] False y by simp_all
  have "x = padStart (length x) (CHR ''0'') (radix_str 2 (radix_val 2 x))" by (rule px [symmetric])
  also have "\<dots> = padStart (length y) (CHR ''0'') (radix_str 2 (radix_val 2 y))"
    by (simp only: assms(3,4))
  also have "\<dots> = y" by (rule py)
  finally show ?thesis .
qed

section \<open>The binary expansion of four octets\<close>

lemma binario_de_octets:
  fixes b0 b1 b2 b3 :: nat
  assumes "b0 < 256" "b1 < 256" "b2 < 256" "b3 < 256"
  shows "length (binario_de [int b0, int b1, int b2, int b3]) = 32"
    and "list_all is_bit (binario_de [int b0, int b1, int b2, int b3])"
    and "radix_val 2 (binario_de [int b0, int b1, int b2, int b3])
         = b0 * 16777216 + b1 * 65536 + b2 * 256 + b3"
proof -
  define B where "B n = padStart 8 (CHR ''0'') (radix_str 2 n)" for n
  have e: "binario_de [int b0, int b1, int b2, int b3] = B b0 @ B b1 @ B b2 @ B b3"
    by (simp add: binario_de_def B_def Number_toString_nonneg)
  have l: "length (B b0) = 8" "length (B b1) = 8" "length (B b2) = 8" "length (B b3) = 8"
    unfolding B_def using assms by (simp_all only: octet_binary(1))
  have v: "radix_val 2 (B b0) = b0" "radix_val 2 (B b1) = b1" "radix_val 2 (B b2) = b2"
    "radix_val 2 (B b3) = b3"
    unfolding B_def using assms by (simp_all only: octet_binary(3))
  have b: "list_all is_bit (B b0)" "list_all is_bit (B b1)" "list_all is_bit (B b2)"
    "list_all is_bit (B b3)"
    unfolding B_def using assms by (simp_all only: octet_binary(2))
  show "length (binario_de [int b0, int b1, int b2, int b3]) = 32"
    unfolding e using l by simp
  show "list_all is_bit (binario_de [int b0, int b1, int b2, int b3])"
    unfolding e using b by simp
  show "radix_val 2 (binario_de [int b0, int b1, int b2, int b3])
         = b0 * 16777216 + b1 * 65536 + b2 * 256 + b3"
    unfolding e radix_val_append length_append l v by simp
qed

lemma bits_count:
  "list_all is_bit x \<Longrightarrow>
   length (filter (\<lambda>bit. bit = CHR ''0'') x) + length (filter (\<lambda>bit. bit = CHR ''1'') x) = length x"
  by (induction x) (auto simp: is_bit_def)

lemma count_ones_zeros:
  "length (filter (\<lambda>bit. bit = CHR ''1'') (replicate p (CHR ''1'') @ replicate z (CHR ''0''))) = p"
  "length (filter (\<lambda>bit. bit = CHR ''0'') (replicate p (CHR ''1'') @ replicate z (CHR ''0''))) = z"
  by simp_all

section \<open>The mask pattern\<close>

lemma star_lit_replicate:
  assumes "rx_lang R x" "R = Star (Lit c)"
  shows "x = replicate (length x) c"
  using assms
proof (induction rule: rx_lang.induct)
  case (L_StarCons r u v)
  then have "u = [c]" by (simp add: rx_lang_Lit)
  with L_StarCons show ?case by simp
qed simp_all

lemma replicate_star_lit: "rx_lang (Star (Lit c)) (replicate k c)"
proof (induction k)
  case 0
  show ?case by (simp add: L_StarNil)
next
  case (Suc k)
  have "rx_lang (Star (Lit c)) ([c] @ replicate k c)"
    using Suc by (intro L_StarCons L_Lit)
  then show ?case by simp
qed

lemma patronMascara_iff:
  "rx_test patronMascara x \<longleftrightarrow>
     (\<exists>p z. x = replicate p (CHR ''1'') @ replicate z (CHR ''0''))"
proof
  assume "rx_test patronMascara x"
  then obtain u v where "x = u @ v" "rx_lang (Star (Lit CHR ''1'')) u" "rx_lang (Star (Lit CHR ''0'')) v"
    by (auto simp: rx_test_iff patronMascara_def rx_lang_Cat)
  then have "x = replicate (length u) (CHR ''1'') @ replicate (length v) (CHR ''0'')"
    using star_lit_replicate [of "Star (Lit CHR ''1'')" u "CHR ''1''"]
      star_lit_replicate [of "Star (Lit CHR ''0'')" v "CHR ''0''"] by simp
  then show "\<exists>p z. x = replicate p (CHR ''1'') @ replicate z (CHR ''0'')" by blast
next
  assume "\<exists>p z. x = replicate p (CHR ''1'') @ replicate z (CHR ''0'')"
  then obtain p z where "x = replicate p (CHR ''1'') @ replicate z (CHR ''0'')" by blast
  then show "rx_test patronMascara x"
    unfolding rx_test_iff patronMascara_def by (auto intro!: L_Cat replicate_star_lit)
qed

lemma radix_val_ones_zeros:
  "radix_val 2 (replicate p (CHR ''1'') @ replicate z (CHR ''0'')) = (2 ^ p - 1) * 2 ^ z"
  by (simp add: radix_val_append radix_val_ones radix_val_zeros)

section \<open>The operators on 32-bit words\<close>

lemma word_of_int_sint_u32: "word_of_int (sint w) = (w :: u32)"
  by simp

lemma numeroAIp_cong:
  "(word_of_int x :: u32) = word_of_int y \<Longrightarrow> numeroAIp x = numeroAIp y"
proof -
  assume "(word_of_int x :: u32) = word_of_int y"
  then have "uint (word_of_int x :: u32) = uint (word_of_int y :: u32)" by simp
  then have "x mod 4294967296 = y mod 4294967296" by (simp only: uint_word_of_int_u32)
  then show ?thesis using numeroAIp_mod [of x] numeroAIp_mod [of y] by simp
qed

lemma numeroAIp_word: "(word_of_int x :: u32) = w \<Longrightarrow> numeroAIp x = numeroAIp (uint w)"
  by (rule numeroAIp_cong) simp

lemma js_and_word: "word_of_int (js_and a b) = (word_of_int a :: u32) AND word_of_int b"
  unfolding js_and_def by (rule word_of_int_sint_u32)

lemma js_broadcast_word:
  "word_of_int (js_or n (js_ushr (js_not m) 0)) = (word_of_int n :: u32) OR NOT (word_of_int m)"
proof -
  have "js_ushr (js_not m) 0 = uint (NOT (word_of_int m :: u32))"
    by (simp add: js_ushr_def js_not_def)
  then show ?thesis by (simp add: js_or_def)
qed

lemma numeroAIp_nonempty: "numeroAIp n \<noteq> []"
  by (simp add: numeroAIp_bytes radix_str_nonempty)

text \<open>\<open>calcularSubredCompleta\<close> in terms of the two numbers read from its arguments.\<close>

lemma calcularSubredCompleta_words:
  assumes "ipANumero ip = Some a" "ipANumero m = Some k" "calcularHostsDesdeMascara m = Some h"
  defines "N \<equiv> (word_of_int a :: u32) AND word_of_int k"
  defines "B \<equiv> N OR NOT (word_of_int k :: u32)"
  shows "calcularSubredCompleta ip m =
     Some \<lparr>networkIP = numeroAIp (uint N), subnetMask = m, broadcastIP = numeroAIp (uint B),
           firstHostIP = numeroAIp (uint (N + 1)), lastHostIP = numeroAIp (uint (B - 1)),
           gatewayIP = numeroAIp (uint (N + 1)), totalHosts = h\<rparr>"
proof -
  have n: "word_of_int (js_and a k) = N" unfolding N_def by (rule js_and_word)
  have red: "calcularIpRed ip m = Some (numeroAIp (uint N))"
    using assms(1,2) numeroAIp_word [OF n] by (simp add: calcularIpRed_def)
  have rn: "ipANumero (numeroAIp (uint N)) = Some (sint N)"
    by (simp add: ipANumero_numeroAIp)
  have b: "word_of_int (js_or (sint N) (js_ushr (js_not k) 0)) = B"
    unfolding B_def js_broadcast_word by simp
  have bc: "calcularIpBroadcast (numeroAIp (uint N)) m = Some (numeroAIp (uint B))"
    using rn assms(2) numeroAIp_word [OF b] by (simp add: calcularIpBroadcast_def)
  have bn: "ipANumero (numeroAIp (uint B)) = Some (sint B)"
    by (simp add: ipANumero_numeroAIp)
  have "word_of_int (sint N + 1) = N + 1" by simp
  then have f: "calcularPrimerHost (numeroAIp (uint N)) = Some (numeroAIp (uint (N + 1)))"
    using rn numeroAIp_word [of "sint N + 1" "N + 1"] by (simp add: calcularPrimerHost_def)
  have "word_of_int (sint B - 1) = B - 1" by simp
  then have l: "calcularUltimoHost (numeroAIp (uint B)) = Some (numeroAIp (uint (B - 1)))"
    using bn numeroAIp_word [of "sint B - 1" "B - 1"] by (simp add: calcularUltimoHost_def)
  show ?thesis
    by (simp add: calcularSubredCompleta_def calcularGateway_def red bc f l assms(3))
qed

section \<open>Accepted addresses and masks\<close>

lemma regex_octets:
  assumes "rx_test ipRegex s"
  obtains b0 b1 b2 b3 :: nat where "b0 < 256" "b1 < 256" "b2 < 256" "b3 < 256"
    "octetos_de s = Some [int b0, int b1, int b2, int b3]"
    "ipANumero s = Some (js_shl (int b0) 24 + js_shl (int b1) 16 + js_shl (int b2) 8 + int b3)"
proof -
  from assms obtain a b c d where p: "s = join_dot [a, b, c, d]"
    "rx_lang octetRx a" "rx_lang octetRx b" "rx_lang octetRx c" "rx_lang octetRx d"
    "octetos_de s = Some [int (radix_val 10 a), int (radix_val 10 b), int (radix_val 10 c),
                          int (radix_val 10 d)]"
    by (rule ipRegex_octetos)
  have "radix_val 10 a < 256" "radix_val 10 b < 256" "radix_val 10 c < 256" "radix_val 10 d < 256"
    using octetRx_digits [OF p(2)] octetRx_digits [OF p(3)] octetRx_digits [OF p(4)]
      octetRx_digits [OF p(5)] by simp_all
  moreover have "ipANumero s = Some (js_shl (int (radix_val 10 a)) 24
      + js_shl (int (radix_val 10 b)) 16 + js_shl (int (radix_val 10 c)) 8 + int (radix_val 10 d))"
    by (rule ipANumero_octets) (rule p(6))
  ultimately show ?thesis using that p(6) by blast
qed

lemma regex_ipANumero: "rx_test ipRegex s \<Longrightarrow> \<exists>a. ipANumero s = Some a"
  by (erule regex_octets) blast

lemma valid_ip_octets:
  assumes "esDireccionIPValida s"
  obtains b0 b1 b2 b3 :: nat where "b0 < 256" "b1 < 256" "b2 < 256" "b3 < 256"
    "octetos_de s = Some [int b0, int b1, int b2, int b3]"
    "ipANumero s = Some (js_shl (int b0) 24 + js_shl (int b1) 16 + js_shl (int b2) 8 + int b3)"
    "\<not> (b0 = 0 \<and> b1 = 0 \<and> b2 = 0 \<and> b3 = 0)"
    "\<not> (b0 = 255 \<and> b1 = 255 \<and> b2 = 255 \<and> b3 = 255)"
proof -
  from assms have r: "rx_test ipRegex s" by (rule esDireccionIPValida_regex)
  then obtain b0 b1 b2 b3 :: nat where b: "b0 < 256" "b1 < 256" "b2 < 256" "b3 < 256"
    "octetos_de s = Some [int b0, int b1, int b2, int b3]"
    "ipANumero s = Some (js_shl (int b0) 24 + js_shl (int b1) 16 + js_shl (int b2) 8 + int b3)"
    by (rule regex_octets)
  from assms r b(5) have "\<not> (b0 = 0 \<and> b1 = 0 \<and> b2 = 0 \<and> b3 = 0)"
    "\<not> (b0 = 255 \<and> b1 = 255 \<and> b2 = 255 \<and> b3 = 255)"
    by (auto simp: esDireccionIPValida_def split: if_splits)
  with b that show ?thesis by blast
qed

lemma hosts_from_octets:
  fixes b0 b1 b2 b3 :: nat
  assumes "b0 < 256" "b1 < 256" "b2 < 256" "b3 < 256"
    "octetos_de m = Some [int b0, int b1, int b2, int b3]"
  shows "\<exists>info. obtenerInfoAdicional m = Some info
           \<and> mascaraBinaria info = binario_de [int b0, int b1, int b2, int b3]
           \<and> notacionCIDR info = bitsRed info
           \<and> bitsHost info = 32 - bitsRed info
           \<and> 0 \<le> bitsRed info \<and> bitsRed info \<le> 32
           \<and> bitsRed info = int (length (filter (\<lambda>bit. bit = CHR ''1'')
                                    (binario_de [int b0, int b1, int b2, int b3])))
           \<and> calcularHostsDesdeMascara m = Some (2 ^ nat (32 - bitsRed info) - 2)"
proof -
  define x where "x = binario_de [int b0, int b1, int b2, int b3]"
  have l: "length x = 32" and b: "list_all is_bit x"
    unfolding x_def using binario_de_octets [OF assms(1-4)] by simp_all
  define p where "p = length (filter (\<lambda>bit. bit = CHR ''1'') x)"
  define z where "z = length (filter (\<lambda>bit. bit = CHR ''0'') x)"
  have pz: "z + p = 32" unfolding p_def z_def using bits_count [OF b] l by simp
  then have z: "z = nat (32 - int p)" by simp
  show ?thesis
    using assms(5) pz
    by (simp add: obtenerInfoAdicional_def calcularHostsDesdeMascara_def Let_def
        x_def [symmetric] p_def [symmetric] z_def [symmetric] z)
qed

lemma valid_mask_octets:
  assumes "esMascaraSubredValida m"
  obtains b0 b1 b2 b3 p :: nat where "b0 < 256" "b1 < 256" "b2 < 256" "b3 < 256"
    "octetos_de m = Some [int b0, int b1, int b2, int b3]"
    "1 \<le> p" "p \<le> 31"
    "binario_de [int b0, int b1, int b2, int b3]
       = replicate p (CHR ''1'') @ replicate (32 - p) (CHR ''0'')"
    "b0 * 16777216 + b1 * 65536 + b2 * 256 + b3 = (2 ^ p - 1) * 2 ^ (32 - p)"
proof -
  from assms have v: "esDireccionIPValida m" by (auto simp: esMascaraSubredValida_def split: if_splits)
  then obtain b0 b1 b2 b3 :: nat where b: "b0 < 256" "b1 < 256" "b2 < 256" "b3 < 256"
    "octetos_de m = Some [int b0, int b1, int b2, int b3]"
    "\<not> (b0 = 0 \<and> b1 = 0 \<and> b2 = 0 \<and> b3 = 0)"
    "\<not> (b0 = 255 \<and> b1 = 255 \<and> b2 = 255 \<and> b3 = 255)"
    by (rule valid_ip_octets) blast
  define x where "x = binario_de [int b0, int b1, int b2, int b3]"
  have l: "length x = 32"
    and val: "radix_val 2 x = b0 * 16777216 + b1 * 65536 + b2 * 256 + b3"
    unfolding x_def using binario_de_octets [OF b(1-4)] by simp_all
  from assms v b(5) have "rx_test patronMascara x"
    by (simp add: esMascaraSubredValida_def x_def)
  then obtain p z where x: "x = replicate p (CHR ''1'') @ replicate z (CHR ''0'')"
    unfolding patronMascara_iff by blast
  with l have pz: "p + z = 32" by simp
  then have z: "z = 32 - p" by simp
  have val2: "b0 * 16777216 + b1 * 65536 + b2 * 256 + b3 = (2 ^ p - 1) * 2 ^ z"
    using val unfolding x radix_val_ones_zeros by simp
  have "p \<noteq> 0"
  proof
    assume "p = 0"
    with val2 have "b0 * 16777216 + b1 * 65536 + b2 * 256 + b3 = 0" by simp
    then show False using b(6) by simp
  qed
  moreover have "p \<noteq> 32"
  proof
    assume "p = 32"
    with pz have "z = 0" by simp
    with val2 \<open>p = 32\<close> have "b0 * 16777216 + b1 * 65536 + b2 * 256 + b3 = 4294967295" by simp
    then have "b0 = 255 \<and> b1 = 255 \<and> b2 = 255 \<and> b3 = 255" using b(1-4) by linarith
    then show False using b(7) by simp
  qed
  ultimately have "1 \<le> p" "p \<le> 31" using pz by simp_all
  then show ?thesis using that b(1-5) x val2 unfolding x_def z by blast
qed

section \<open>The complete subnet\<close>

lemma address_word_numeroAIp: "address_word (numeroAIp (uint w)) = Some w"
  by (simp add: address_word_def ipANumero_numeroAIp)

text \<open>
  Claim C1. For an address and a mask that the validators accept, \<open>calcularSubredCompleta\<close>
  returns a result whose network address is the address AND the mask, whose broadcast
  address is the network OR the complement of the mask in 32 bits, whose first host is the
  network plus one, whose last host is the broadcast minus one, whose gateway is the first
  host, and whose host count is \<open>2^(32 - prefix) - 2\<close>, the prefix being the number of one
  bits of the mask; every address field is the dotted form that \<open>numeroAIp\<close> prints.
  For 10.0.0.50 with mask 255.255.255.0 the result is 10.0.0.0, 10.0.0.255, 10.0.0.1,
  10.0.0.254 and 254 hosts.
\<close>

theorem subnet_result_fields:
  assumes "esDireccionIPValida ip" "esMascaraSubredValida m"
  shows "(\<exists>r A M info.
            calcularSubredCompleta ip m = Some r \<and> address_word ip = Some A
          \<and> address_word m = Some M \<and> obtenerInfoAdicional m = Some info
          \<and> address_word (networkIP r) = Some (A AND M)
          \<and> address_word (broadcastIP r) = Some ((A AND M) OR NOT M)
          \<and> address_word (firstHostIP r) = Some ((A AND M) + 1)
          \<and> address_word (lastHostIP r) = Some (((A AND M) OR NOT M) - 1)
          \<and> networkIP r = numeroAIp (uint (A AND M))
          \<and> broadcastIP r = numeroAIp (uint ((A AND M) OR NOT M))
          \<and> firstHostIP r = numeroAIp (uint ((A AND M) + 1))
          \<and> lastHostIP r = numeroAIp (uint (((A AND M) OR NOT M) - 1))
          \<and> gatewayIP r = firstHostIP r
          \<and> subnetMask r = m
          \<and> totalHosts r = 2 ^ nat (32 - notacionCIDR info) - 2)
       \<and> calcularSubredCompleta ''10.0.0.50'' ''255.255.255.0''
           = Some \<lparr>networkIP = ''10.0.0.0'', subnetMask = ''255.255.255.0'',
                   broadcastIP = ''10.0.0.255'', firstHostIP = ''10.0.0.1'',
                   lastHostIP = ''10.0.0.254'', gatewayIP = ''10.0.0.1'', totalHosts = 254\<rparr>"
proof
  from assms(1) obtain a where a: "ipANumero ip = Some a"
    using regex_ipANumero esDireccionIPValida_regex by blast
  from assms(2) obtain b0 b1 b2 b3 :: nat where b: "b0 < 256" "b1 < 256" "b2 < 256" "b3 < 256"
    "octetos_de m = Some [int b0, int b1, int b2, int b3]"
    by (rule valid_mask_octets)
  from b(5) obtain k where k: "ipANumero m = Some k" by (simp add: ipANumero_def)
  from hosts_from_octets [OF b] obtain info where i: "obtenerInfoAdicional m = Some info"
    "notacionCIDR info = bitsRed info"
    "calcularHostsDesdeMascara m = Some (2 ^ nat (32 - bitsRed info) - 2)"
    by blast
  define A :: u32 where "A = word_of_int a"
  define M :: u32 where "M = word_of_int k"
  note r = calcularSubredCompleta_words [OF a k i(3), folded A_def M_def]
  show "\<exists>r A M info.
            calcularSubredCompleta ip m = Some r \<and> address_word ip = Some A
          \<and> address_word m = Some M \<and> obtenerInfoAdicional m = Some info
          \<and> address_word (networkIP r) = Some (A AND M)
          \<and> address_word (broadcastIP r) = Some ((A AND M) OR NOT M)
          \<and> address_word (firstHostIP r) = Some ((A AND M) + 1)
          \<and> address_word (lastHostIP r) = Some (((A AND M) OR NOT M) - 1)
          \<and> networkIP r = numeroAIp (uint (A AND M))
          \<and> broadcastIP r = numeroAIp (uint ((A AND M) OR NOT M))
          \<and> firstHostIP r = numeroAIp (uint ((A AND M) + 1))
          \<and> lastHostIP r = numeroAIp (uint (((A AND M) OR NOT M) - 1))
          \<and> gatewayIP r = firstHostIP r
          \<and> subnetMask r = m
          \<and> totalHosts r = 2 ^ nat (32 - notacionCIDR info) - 2"
    apply (rule exI [of _ "\<lparr>networkIP = numeroAIp (uint (A AND M)), subnetMask = m,
           broadcastIP = numeroAIp (uint ((A AND M) OR NOT M)),
           firstHostIP = numeroAIp (uint ((A AND M) + 1)),
           lastHostIP = numeroAIp (uint (((A AND M) OR NOT M) - 1)),
           gatewayIP = numeroAIp (uint ((A AND M) + 1)),
           totalHosts = 2 ^ nat (32 - bitsRed info) - 2\<rparr>"])
    apply (rule exI [of _ A], rule exI [of _ M], rule exI [of _ info])
    using r a k i(1,2)
    apply (simp add: address_word_numeroAIp)
    apply (simp add: address_word_def A_def M_def)
    done
next
  show "calcularSubredCompleta ''10.0.0.50'' ''255.255.255.0''
           = Some \<lparr>networkIP = ''10.0.0.0'', subnetMask = ''255.255.255.0'',
                   broadcastIP = ''10.0.0.255'', firstHostIP = ''10.0.0.1'',
                   lastHostIP = ''10.0.0.254'', gatewayIP = ''10.0.0.1'', totalHosts = 254\<rparr>"
    by code_simp
qed


theorem subnet_result_fields_witness:
  "esDireccionIPValida ''192.168.1.100'' \<and> esMascaraSubredValida ''255.255.255.192''
   \<and> (\<exists>r A M. calcularSubredCompleta ''192.168.1.100'' ''255.255.255.192'' = Some r
          \<and> address_word ''192.168.1.100'' = Some A \<and> address_word ''255.255.255.192'' = Some M
          \<and> address_word (networkIP r) = Some (A AND M)
          \<and> address_word (broadcastIP r) = Some ((A AND M) OR NOT M)
          \<and> address_word (firstHostIP r) = Some ((A AND M) + 1)
          \<and> address_word (lastHostIP r) = Some (((A AND M) OR NOT M) - 1)
          \<and> gatewayIP r = firstHostIP r)"
proof -
  have v1: "esDireccionIPValida ''192.168.1.100''" by code_simp
  have v2: "esMascaraSubredValida ''255.255.255.192''" by code_simp
  from subnet_result_fields [OF v1 v2] v1 v2 show ?thesis by blast
qed

section \<open>Containment\<close>

text \<open>
  Claim C8. For an address and a mask that are well-formed dotted decimals of four octets
  (they match the address pattern), the network address of the address lies in its own
  subnet: \<open>ipEstaEnSubred\<close> of the network address, the network address and the mask
  is true.
\<close>

theorem network_in_own_subnet:
  assumes "rx_test ipRegex ip" "rx_test ipRegex m"
  shows "\<exists>net. calcularIpRed ip m = Some net \<and> ipEstaEnSubred net net m = Some True"
proof -
  from assms obtain a k where a: "ipANumero ip = Some a" and k: "ipANumero m = Some k"
    using regex_ipANumero by blast
  define N :: u32 where "N = word_of_int a AND word_of_int k"
  have n: "word_of_int (js_and a k) = N" unfolding N_def by (rule js_and_word)
  have red: "calcularIpRed ip m = Some (numeroAIp (js_and a k))"
    using a k by (simp add: calcularIpRed_def)
  have rn: "ipANumero (numeroAIp (js_and a k)) = Some (sint N)"
    unfolding ipANumero_numeroAIp n ..
  have "js_and (sint N) k = sint (N AND word_of_int k)" by (simp add: js_and_def)
  also have "N AND word_of_int k = N" unfolding N_def by (simp add: and.assoc)
  finally have "js_and (sint N) k = sint N" .
  then have "ipEstaEnSubred (numeroAIp (js_and a k)) (numeroAIp (js_and a k)) m = Some True"
    using rn k by (simp add: ipEstaEnSubred_def)
  with red show ?thesis by blast
qed

theorem network_in_own_subnet_witness:
  "rx_test ipRegex ''192.168.1.100'' \<and> rx_test ipRegex ''255.255.255.192''
   \<and> (\<exists>net. calcularIpRed ''192.168.1.100'' ''255.255.255.192'' = Some net
          \<and> ipEstaEnSubred net net ''255.255.255.192'' = Some True)"
proof -
  have v1: "rx_test ipRegex ''192.168.1.100''" by code_simp
  have v2: "rx_test ipRegex ''255.255.255.192''" by code_simp
  from network_in_own_subnet [OF v1 v2] v1 v2 show ?thesis by blast
qed

section \<open>The mask for a host count\<close>

lemma ceil_log2_ceillog2: "ceil_log2 n = ceillog2 n"
proof (induction n rule: ceil_log2.induct)
  case (1 n)
  show ?case
  proof (cases "n \<le> 1")
    case True
    then show ?thesis by (subst ceil_log2.simps) simp
  next
    case False
    then have "ceil_log2 n = Suc (ceillog2 ((n + 1) div 2))"
      using 1 by (subst ceil_log2.simps) simp
    also have "\<dots> = ceillog2 n" using False by (subst (2) ceillog2_rec) simp
    finally show ?thesis .
  qed
qed

text \<open>The recursion computes the ceiling of the binary logarithm.\<close>

lemma ceil_log2_log: "0 < n \<Longrightarrow> int (ceil_log2 n) = \<lceil>log 2 (real n)\<rceil>"
proof -
  assume "0 < n"
  then have "1 \<le> real n" by simp
  then have "0 \<le> log 2 (real n)" by simp
  then have "0 \<le> \<lceil>log 2 (real n)\<rceil>" by linarith
  then show ?thesis using \<open>0 < n\<close> by (simp add: ceil_log2_ceillog2 ceillog2_def)
qed

lemma ceil_log2_le_iff: "0 < n \<Longrightarrow> ceil_log2 n \<le> l \<longleftrightarrow> n \<le> 2 ^ l"
  by (simp add: ceil_log2_ceillog2 ceillog2_le_iff)

lemma ceil_log2_ge_iff: "0 < n \<Longrightarrow> l \<le> ceil_log2 n \<longleftrightarrow> 2 ^ l < 2 * n"
  by (simp add: ceil_log2_ceillog2 ceillog2_ge_iff)

lemma radix_val_2_bound: "list_all is_bit x \<Longrightarrow> radix_val 2 x < 2 ^ length x"
proof (induction x rule: rev_induct)
  case Nil
  then show ?case by (simp add: radix_val_def)
next
  case (snoc c x)
  then have "radix_val 2 x < 2 ^ length x" "digit_val c < 2"
    using is_bit_digit [of c] by simp_all
  then show ?case by (simp add: radix_val_snoc)
qed

lemma parseInt2_bits:
  assumes "x \<noteq> []" "list_all is_bit x"
  shows "parseInt2 x = Some (int (radix_val 2 x))"
proof -
  have tw: "takeWhile (\<lambda>c. c = CHR ''0'' \<or> c = CHR ''1'') x = x"
    using assms(2) by (simp add: takeWhile_eq_all_conv list_all_iff is_bit_def)
  show ?thesis unfolding parseInt2_def Let_def tw using assms(1) by simp
qed

text \<open>
  Cutting 32 binary digits into four octets and printing them gives a string that reads
  back as the same 32 digits.
\<close>

lemma octetos_de_binario_roundtrip:
  assumes "length x = 32" "list_all is_bit x"
  defines "c0 \<equiv> take 8 x" and "c1 \<equiv> take 8 (drop 8 x)"
    and "c2 \<equiv> take 8 (drop 16 x)" and "c3 \<equiv> take 8 (drop 24 x)"
  shows "octetos_de (octetos_de_binario x)
          = Some [int (radix_val 2 c0), int (radix_val 2 c1), int (radix_val 2 c2),
                  int (radix_val 2 c3)]"
    and "binario_de [int (radix_val 2 c0), int (radix_val 2 c1), int (radix_val 2 c2),
                     int (radix_val 2 c3)] = x"
    and "radix_val 2 c0 < 256" "radix_val 2 c1 < 256" "radix_val 2 c2 < 256"
      "radix_val 2 c3 < 256"
proof -
  have l: "length c0 = 8" "length c1 = 8" "length c2 = 8" "length c3 = 8"
    unfolding c0_def c1_def c2_def c3_def using assms(1) by simp_all
  have b: "list_all is_bit c0" "list_all is_bit c1" "list_all is_bit c2" "list_all is_bit c3"
    unfolding c0_def c1_def c2_def c3_def using assms(2)
    by (auto simp: list_all_iff dest: in_set_takeD in_set_dropD)
  have ne: "c0 \<noteq> []" "c1 \<noteq> []" "c2 \<noteq> []" "c3 \<noteq> []" using l by auto
  show v: "radix_val 2 c0 < 256" "radix_val 2 c1 < 256" "radix_val 2 c2 < 256"
      "radix_val 2 c3 < 256"
    using radix_val_2_bound [OF b(1)] radix_val_2_bound [OF b(2)] radix_val_2_bound [OF b(3)]
      radix_val_2_bound [OF b(4)] l by simp_all
  have "[0..<4] = [0, 1, 2, 3]" by (simp add: upt_rec)
  then have e: "octetos_de_binario x
      = join_dot [radix_str 10 (radix_val 2 c0), radix_str 10 (radix_val 2 c1),
                  radix_str 10 (radix_val 2 c2), radix_str 10 (radix_val 2 c3)]"
    using parseInt2_bits [OF ne(1) b(1)] parseInt2_bits [OF ne(2) b(2)]
      parseInt2_bits [OF ne(3) b(3)] parseInt2_bits [OF ne(4) b(4)]
    by (simp add: octetos_de_binario_def substr_def num_or_NaN_str_def Number_toString_nonneg
        c0_def c1_def c2_def c3_def)
  show "octetos_de (octetos_de_binario x)
          = Some [int (radix_val 2 c0), int (radix_val 2 c1), int (radix_val 2 c2),
                  int (radix_val 2 c3)]"
    unfolding e by (rule octetos_de_join4) (use v in simp_all)
  have pad: "padStart 8 (CHR ''0'') (radix_str 2 (radix_val 2 c)) = c"
    if "length c = 8" "list_all is_bit c" for c
  proof -
    have "c \<noteq> []" using that(1) by auto
    moreover have "\<forall>d\<in>set c. is_digit d \<and> digit_val d < 2"
      using that(2) is_bit_digit by (auto simp: list_all_iff)
    ultimately show ?thesis using pad_radix_str_val [of 2 c] that(1) by simp
  qed
  have "binario_de [int (radix_val 2 c0), int (radix_val 2 c1), int (radix_val 2 c2),
                     int (radix_val 2 c3)] = c0 @ c1 @ c2 @ c3"
    by (simp add: binario_de_def Number_toString_nonneg pad l b)
  also have "\<dots> = x"
  proof -
    have "c0 @ c1 @ c2 @ c3 = take 8 x @ take 8 (drop 8 x) @ take 8 (drop 16 x) @ drop 24 x"
      unfolding c0_def c1_def c2_def c3_def using assms(1) by simp
    also have "take 8 (drop 16 x) @ drop 24 x = drop 16 x"
      using append_take_drop_id [of 8 "drop 16 x"] by simp
    also have "take 8 (drop 8 x) @ drop 16 x = drop 8 x"
      using append_take_drop_id [of 8 "drop 8 x"] by simp
    also have "take 8 x @ drop 8 x = x" by simp
    finally show ?thesis .
  qed
  finally show "binario_de [int (radix_val 2 c0), int (radix_val 2 c1), int (radix_val 2 c2),
                     int (radix_val 2 c3)] = x" .
qed

text \<open>The mask string with \<open>p\<close> leading one bits.\<close>

lemma prefix_mask_string:
  assumes "p \<le> 32"
  defines "x \<equiv> replicate p (CHR ''1'') @ replicate (32 - p) (CHR ''0'')"
  shows "\<exists>b0 b1 b2 b3 :: nat. b0 < 256 \<and> b1 < 256 \<and> b2 < 256 \<and> b3 < 256
          \<and> octetos_de (octetos_de_binario x) = Some [int b0, int b1, int b2, int b3]
          \<and> binario_de [int b0, int b1, int b2, int b3] = x
          \<and> b0 * 16777216 + b1 * 65536 + b2 * 256 + b3 = (2 ^ p - 1) * 2 ^ (32 - p)"
proof -
  have l: "length x = 32" unfolding x_def using assms(1) by simp
  have b: "list_all is_bit x" unfolding x_def list_all_append
    by (intro conjI bits_replicate) (simp_all add: is_bit_def)
  define b0 where "b0 = radix_val 2 (take 8 x)"
  define b1 where "b1 = radix_val 2 (take 8 (drop 8 x))"
  define b2 where "b2 = radix_val 2 (take 8 (drop 16 x))"
  define b3 where "b3 = radix_val 2 (take 8 (drop 24 x))"
  note rt = octetos_de_binario_roundtrip [OF l b, folded b0_def b1_def b2_def b3_def]
  have "radix_val 2 (binario_de [int b0, int b1, int b2, int b3])
        = b0 * 16777216 + b1 * 65536 + b2 * 256 + b3"
    by (rule binario_de_octets(3) [OF rt(3-6)])
  then have "b0 * 16777216 + b1 * 65536 + b2 * 256 + b3 = radix_val 2 x"
    unfolding rt(2) by simp
  also have "\<dots> = (2 ^ p - 1) * 2 ^ (32 - p)"
    unfolding x_def by (rule radix_val_ones_zeros)
  finally show ?thesis using rt by blast
qed

lemma prefix_mask_info:
  assumes "p \<le> 32"
  defines "x \<equiv> replicate p (CHR ''1'') @ replicate (32 - p) (CHR ''0'')"
  shows "\<exists>info. obtenerInfoAdicional (octetos_de_binario x) = Some info
          \<and> mascaraBinaria info = x \<and> notacionCIDR info = int p \<and> bitsRed info = int p
          \<and> bitsHost info = 32 - int p
          \<and> calcularHostsDesdeMascara (octetos_de_binario x) = Some (2 ^ (32 - p) - 2)"
proof -
  from prefix_mask_string [OF assms(1), folded x_def]
  obtain b0 b1 b2 b3 :: nat where b: "b0 < 256" "b1 < 256" "b2 < 256" "b3 < 256"
    "octetos_de (octetos_de_binario x) = Some [int b0, int b1, int b2, int b3]"
    "binario_de [int b0, int b1, int b2, int b3] = x"
    by blast
  have c1: "length (filter (\<lambda>bit. bit = CHR ''1'') x) = p"
    and c0: "length (filter (\<lambda>bit. bit = CHR ''0'') x) = 32 - p"
    unfolding x_def by (rule count_ones_zeros)+
  show ?thesis
    using assms(1)
    by (simp add: obtenerInfoAdicional_def calcularHostsDesdeMascara_def Let_def b(5,6) c1 c0)
qed

lemma calcularMascaraDesdeHosts_range:
  assumes "-1 \<le> h" "h \<le> 4294967294"
  shows "ceil_log2 (nat (h + 2)) \<le> 32"
    and "calcularMascaraDesdeHosts h =
          Inr (octetos_de_binario (replicate (32 - ceil_log2 (nat (h + 2))) (CHR ''1'')
                                   @ replicate (ceil_log2 (nat (h + 2))) (CHR ''0'')))"
proof -
  have pos: "0 < nat (h + 2)" using assms(1) by simp
  have "nat (h + 2) \<le> 2 ^ 32" using assms by simp
  then show c: "ceil_log2 (nat (h + 2)) \<le> 32" using pos by (simp only: ceil_log2_le_iff)
  have "nat (32 - int (ceil_log2 (nat (h + 2)))) = 32 - ceil_log2 (nat (h + 2))" by simp
  then show "calcularMascaraDesdeHosts h =
          Inr (octetos_de_binario (replicate (32 - ceil_log2 (nat (h + 2))) (CHR ''1'')
                                   @ replicate (ceil_log2 (nat (h + 2))) (CHR ''0'')))"
    using assms(1) c
    by (simp add: calcularMascaraDesdeHosts_def ceil_log2_js_def js_sub_def Let_def)
qed

text \<open>
  Claim C3. For a host count \<open>h\<close> between 1 and 16777214, let \<open>c\<close> be the ceiling of
  the binary logarithm of \<open>h + 2\<close>. \<open>calcularMascaraDesdeHosts\<close> returns a mask whose
  binary expansion is \<open>32 - c\<close> ones followed by \<open>c\<close> zeros; its prefix is \<open>32 - c\<close>
  and it offers \<open>2^c - 2\<close> hosts, no fewer than \<open>h\<close>. For 192.168.1.100 and 50 hosts
  the result is the mask 255.255.255.192, network 192.168.1.64, broadcast 192.168.1.127,
  hosts 192.168.1.65 to 192.168.1.126, gateway 192.168.1.65 and 62 hosts.
\<close>

theorem mask_from_host_count:
  assumes "1 \<le> h" "h \<le> 16777214"
  shows "(\<exists>c m info. int c = \<lceil>log 2 (real_of_int (h + 2))\<rceil> \<and> 2 \<le> c \<and> c \<le> 24
            \<and> calcularMascaraDesdeHosts h = Inr m
            \<and> obtenerInfoAdicional m = Some info
            \<and> mascaraBinaria info = replicate (32 - c) (CHR ''1'') @ replicate c (CHR ''0'')
            \<and> notacionCIDR info = 32 - int c
            \<and> calcularHostsDesdeMascara m = Some (2 ^ c - 2)
            \<and> h \<le> 2 ^ c - 2)
       \<and> calcularSubredPorHosts ''192.168.1.100'' 50
           = Inr \<lparr>networkIP = ''192.168.1.64'', subnetMask = ''255.255.255.192'',
                  broadcastIP = ''192.168.1.127'', firstHostIP = ''192.168.1.65'',
                  lastHostIP = ''192.168.1.126'', gatewayIP = ''192.168.1.65'',
                  totalHosts = 62\<rparr>"
proof
  define n where "n = nat (h + 2)"
  define c where "c = ceil_log2 n"
  have n: "0 < n" "int n = h + 2" unfolding n_def using assms by simp_all
  have "real n = real_of_int (int n)" by simp
  then have rn: "real n = real_of_int (h + 2)" unfolding n(2) .
  have lg: "int c = \<lceil>log 2 (real_of_int (h + 2))\<rceil>"
    unfolding c_def rn [symmetric] by (rule ceil_log2_log [OF n(1)])
  have "n \<le> 2 ^ 24" unfolding n_def using assms by simp
  then have c24: "c \<le> 24" unfolding c_def using n(1) by (simp only: ceil_log2_le_iff)
  have "(2::nat) ^ 2 < 2 * n" unfolding n_def using assms by simp
  then have c2: "2 \<le> c" unfolding c_def using n(1) by (simp only: ceil_log2_ge_iff)
  have "n \<le> 2 ^ c" unfolding c_def using ceil_log2_le_iff [OF n(1), of "ceil_log2 n"] by simp
  then have "int n \<le> 2 ^ c" by (metis of_nat_le_iff of_nat_numeral of_nat_power)
  then have hc: "h \<le> 2 ^ c - 2" using n(2) by simp
  have m: "calcularMascaraDesdeHosts h =
      Inr (octetos_de_binario (replicate (32 - c) (CHR ''1'') @ replicate c (CHR ''0'')))"
    unfolding c_def n_def using assms by (intro calcularMascaraDesdeHosts_range(2)) simp_all
  have p: "32 - c \<le> 32" "32 - (32 - c) = c" using c24 by simp_all
  from prefix_mask_info [OF p(1)] obtain info where
    i: "obtenerInfoAdicional (octetos_de_binario (replicate (32 - c) (CHR ''1'')
            @ replicate c (CHR ''0''))) = Some info"
      "mascaraBinaria info = replicate (32 - c) (CHR ''1'') @ replicate c (CHR ''0'')"
      "notacionCIDR info = int (32 - c)"
      "calcularHostsDesdeMascara (octetos_de_binario (replicate (32 - c) (CHR ''1'')
            @ replicate c (CHR ''0''))) = Some (2 ^ c - 2)"
    unfolding p(2) by blast
  have "int (32 - c) = 32 - int c" using c24 by simp
  with lg c2 c24 m i hc
  show "\<exists>c m info. int c = \<lceil>log 2 (real_of_int (h + 2))\<rceil> \<and> 2 \<le> c \<and> c \<le> 24
            \<and> calcularMascaraDesdeHosts h = Inr m
            \<and> obtenerInfoAdicional m = Some info
            \<and> mascaraBinaria info = replicate (32 - c) (CHR ''1'') @ replicate c (CHR ''0'')
            \<and> notacionCIDR info = 32 - int c
            \<and> calcularHostsDesdeMascara m = Some (2 ^ c - 2)
            \<and> h \<le> 2 ^ c - 2"
    by (metis (no_types))
next
  show "calcularSubredPorHosts ''192.168.1.100'' 50
           = Inr \<lparr>networkIP = ''192.168.1.64'', subnetMask = ''255.255.255.192'',
                  broadcastIP = ''192.168.1.127'', firstHostIP = ''192.168.1.65'',
                  lastHostIP = ''192.168.1.126'', gatewayIP = ''192.168.1.65'',
                  totalHosts = 62\<rparr>"
    by code_simp
qed

theorem mask_from_host_count_witness:
  "(1::int) \<le> 50 \<and> (50::int) \<le> 16777214
   \<and> (\<exists>c m info. int c = \<lceil>log 2 (real_of_int (50 + 2))\<rceil> \<and> 2 \<le> c \<and> c \<le> 24
            \<and> calcularMascaraDesdeHosts 50 = Inr m
            \<and> obtenerInfoAdicional m = Some info
            \<and> mascaraBinaria info = replicate (32 - c) (CHR ''1'') @ replicate c (CHR ''0'')
            \<and> notacionCIDR info = 32 - int c
            \<and> calcularHostsDesdeMascara m = Some (2 ^ c - 2)
            \<and> 50 \<le> (2::int) ^ c - 2)"
proof -
  have a: "(1::int) \<le> 50" "(50::int) \<le> 16777214" by simp_all
  from mask_from_host_count [OF a] a show ?thesis by blast
qed

section \<open>Numbers as host counts\<close>

lemma strip_zeros_digits:
  "0 < m \<Longrightarrow> \<exists>z. radix_str 10 m = radix_str 10 (strip_zeros m) @ replicate z CHR ''0''"
proof (induction m rule: strip_zeros.induct)
  case (1 s)
  show ?case
  proof (cases "s mod 10 = 0")
    case False
    then have "strip_zeros s = s" by (subst strip_zeros.simps) simp
    then show ?thesis by (intro exI [of _ 0]) simp
  next
    case True
    define q where "q = s div 10"
    have s: "s = 10 * q + 0" using True by (auto simp: q_def)
    have q: "0 < q" using 1(2) s by simp
    have st: "strip_zeros s = strip_zeros q"
      using True 1(2) by (subst strip_zeros.simps) (simp add: q_def)
    from 1(1) True 1(2) q obtain z
      where z: "radix_str 10 q = radix_str 10 (strip_zeros q) @ replicate z CHR ''0''"
      by (auto simp: q_def)
    have "radix_str 10 s = radix_str 10 q @ [digit_char 0]"
      by (subst s, rule radix_str_shift) (use q in simp_all)
    then have "radix_str 10 s = radix_str 10 (strip_zeros s) @ replicate (Suc z) CHR ''0''"
      using z st by (simp add: digit_char_0 replicate_append_same)
    then show ?thesis by blast
  qed
qed

lemma ToString_Number_of_int:
  assumes "\<bar>v\<bar> < 10 ^ 21"
  shows "ToString (Number_of_int v) = Number_toString 10 v"
proof (cases "v = 0")
  case True
  then show ?thesis
    by (simp add: Number_of_int_def Number_toString_def radix_str_small digit_char_0)
next
  case False
  define m where "m = nat \<bar>v\<bar>"
  have m: "0 < m" "m < 10 ^ 21" using False assms by (simp_all add: m_def nat_less_iff)
  obtain z where z: "radix_str 10 m = radix_str 10 (strip_zeros m) @ replicate z CHR ''0''"
    using strip_zeros_digits [OF m(1)] by blast
  define ds where "ds = radix_str 10 (strip_zeros m)"
  have len: "length (radix_str 10 m) = length ds + z" using z by (simp add: ds_def)
  have le: "length (radix_str 10 m) \<le> 21" using radix_str_length [of 10 m 21] m by simp
  have t: "ToString (NumFinite (v < 0) (strip_zeros m) (int (length (radix_str 10 m))))
             = (if v < 0 then CHR ''-'' # radix_str 10 m else radix_str 10 m)"
    using len le z by (simp add: Let_def ds_def)
  have n: "nat (- v) = m" if "v < 0" using that by (simp add: m_def)
  have p: "nat v = m" if "\<not> v < 0" using that by (simp add: m_def)
  show ?thesis using False t n p
    by (simp add: Number_of_int_def Number_toString_def flip: m_def)
qed

lemma esNumeroHostsValido_Number_of_int:
  "\<bar>v\<bar> < 10 ^ 21 \<Longrightarrow> esNumeroHostsValido (JNum (Number_of_int v)) \<longleftrightarrow> 1 \<le> v \<and> v \<le> 16777214"
  by (auto simp: esNumeroHostsValido_def ToString_Number_of_int parseInt_js_Number_toString)

lemma radix_str_16777215: "radix_str 10 16777215 = ''16777215''"
  by (simp add: radix_str_step radix_str_small digit_char_def char_of_def bit_iff_odd)

lemma Number_of_int_16777215: "Number_of_int 16777215 = NumFinite False 16777215 8"
  by (simp add: Number_of_int_def radix_str_16777215 strip_zeros.simps [of 16777215])

lemma esNumeroHostsValido_16777215: "\<not> esNumeroHostsValido (JNum (NumFinite False 16777215 8))"
  using esNumeroHostsValido_Number_of_int [of 16777215] by (simp add: Number_of_int_16777215)

text \<open>
  Beyond \<open>10^21\<close> a Number prints in the exponent form, and \<open>parseInt\<close> reads its first
  digit: \<open>1e21\<close> prints as \<open>1e+21\<close>, reads as 1, and passes as a host count. A Number
  that is not an integer is read up to its point.
\<close>

lemma ToString_1e21: "ToString (NumFinite False 1 22) = ''1e+21''"
  by code_simp

lemma esNumeroHostsValido_1e21: "esNumeroHostsValido (JNum (NumFinite False 1 22))"
  by code_simp

lemma ToString_12_7:
  "ToString (NumFinite False 127 2) = ''12.7''
   \<and> parseInt_value (JNum (NumFinite False 127 2)) = Some 12"
  by code_simp

section \<open>The host count that is accepted\<close>

text \<open>
  Claim C7, as the code has it. \<open>esNumeroHostsValido\<close> decides on the integer that
  \<open>parseInt\<close> reads at the start of the input. A string is accepted exactly when that
  integer exists and lies between 1 and 16777214. For a Number holding an integer of
  magnitude at most \<open>2^53 - 1\<close>, and for a string that is a plain decimal numeral, the
  input is accepted exactly when its value lies between 1 and 16777214; 16777215 is
  rejected.
\<close>

theorem host_count_by_parseInt:
  "(\<bar>n\<bar> \<le> 9007199254740991 \<longrightarrow>
      (esNumeroHostsValido (JNum (Number_of_int n)) \<longleftrightarrow> 1 \<le> n \<and> n \<le> 16777214))
   \<and> (esNumeroHostsValido (JStr s) \<longleftrightarrow> (\<exists>k. parseInt_js s = Some k \<and> 1 \<le> k \<and> k \<le> 16777214))
   \<and> (s \<noteq> [] \<and> list_all is_digit s \<longrightarrow>
        (esNumeroHostsValido (JStr s) \<longleftrightarrow> 1 \<le> radix_val 10 s \<and> radix_val 10 s \<le> 16777214))
   \<and> \<not> esNumeroHostsValido (JNum (NumFinite False 16777215 8))
   \<and> \<not> esNumeroHostsValido (JStr ''16777215'')"
proof -
  have 1: "esNumeroHostsValido (JNum (Number_of_int n)) \<longleftrightarrow> 1 \<le> n \<and> n \<le> 16777214"
    if "\<bar>n\<bar> \<le> 9007199254740991" for n
    using that by (intro esNumeroHostsValido_Number_of_int) simp
  have 2: "esNumeroHostsValido (JStr s) \<longleftrightarrow> (\<exists>k. parseInt_js s = Some k \<and> 1 \<le> k \<and> k \<le> 16777214)"
    by (auto simp: esNumeroHostsValido_def split: option.splits)
  have 3: "esNumeroHostsValido (JStr s) \<longleftrightarrow> 1 \<le> radix_val 10 s \<and> radix_val 10 s \<le> 16777214"
    if "s \<noteq> []" "list_all is_digit s" for s
    using that by (auto simp: esNumeroHostsValido_def parseInt_js_digits)
  have "radix_val 10 ''16777215'' = 16777215" by (simp add: radix_val_def digit_val_def)
  moreover have "list_all is_digit ''16777215''" by (simp add: is_digit_def)
  ultimately have 4: "\<not> esNumeroHostsValido (JStr ''16777215'')"
    using 3 [of "''16777215''"] by simp
  note 5 = esNumeroHostsValido_16777215
  show ?thesis using 1 [of n] 2 3 [of s] 4 5 by blast
qed

theorem host_count_by_parseInt_witness:
  "\<bar>50::int\<bar> \<le> 9007199254740991 \<and> Number_of_int 50 = NumFinite False 5 2
   \<and> esNumeroHostsValido (JNum (NumFinite False 5 2))
   \<and> ''50'' \<noteq> [] \<and> list_all is_digit ''50'' \<and> esNumeroHostsValido (JStr ''50'')"
proof -
  have d: "''50'' \<noteq> [] \<and> list_all is_digit ''50''" by code_simp
  have v: "radix_val 10 ''50'' = 50" by code_simp
  have e: "Number_of_int 50 = NumFinite False 5 2" by code_simp
  note t = host_count_by_parseInt [of 50 "''50''"]
  from t have "\<bar>50::int\<bar> \<le> 9007199254740991 \<longrightarrow>
      (esNumeroHostsValido (JNum (Number_of_int 50)) \<longleftrightarrow> (1::int) \<le> 50 \<and> (50::int) \<le> 16777214)"
    by (rule conjunct1)
  then have a: "esNumeroHostsValido (JNum (NumFinite False 5 2))" by (simp add: e)
  from t have b: "''50'' \<noteq> [] \<and> list_all is_digit ''50'' \<longrightarrow>
        (esNumeroHostsValido (JStr ''50'') \<longleftrightarrow> 1 \<le> radix_val 10 ''50'' \<and> radix_val 10 ''50'' \<le> 16777214)"
    by blast
  from b d v have "esNumeroHostsValido (JStr ''50'')" by simp
  with a d e show ?thesis by simp
qed

text \<open>
  Claim C7 as stated fails: the string \<open>12.7\<close> is not an integer, and it is accepted,
  since \<open>parseInt\<close> stops at the point and returns 12.
\<close>

theorem host_count_counterexample:
  "esNumeroHostsValido (JStr ''12.7'') \<and> \<not> spec_isValidHostCount (JStr ''12.7'')
   \<and> parseInt_js ''12.7'' = Some 12"
  by code_simp

section \<open>Validating the complete input\<close>

lemma obtenerMensajeError_mascara:
  "obtenerMensajeError ''mascara'' (JStr m)
     = Inr (if m = [] \<or> js_trim m = [] then msg_mascara_vacia else msg_mascara_invalida)"
  by (simp add: obtenerMensajeError_def)

lemma obtenerMensajeError_hosts_string:
  "obtenerMensajeError ''hosts'' (JStr s)
     = Inr (if s = [] \<or> js_trim s = [] then msg_hosts_vacio
            else (case parseInt_js s of
                    None \<Rightarrow> msg_hosts_invalido
                  | Some k \<Rightarrow> if k < 1 then msg_hosts_menor
                              else if k > 16777214 then msg_hosts_mayor
                              else msg_hosts_invalido))"
  by (simp add: obtenerMensajeError_def split: option.splits)

lemma obtenerMensajeError_hosts_number:
  "obtenerMensajeError ''hosts'' (JNum x)
     = (if x = NumZero \<or> x = NumNaN then Inr msg_hosts_vacio else Inl TypeError)"
  by (simp add: obtenerMensajeError_def)

text \<open>
  Claim C6. \<open>validarEntradaCompleta\<close> checks the address first: when the address is
  invalid, the outcome is the invalid outcome with the message of the address, whatever
  the mode, the mask and the host count are; for \<open>0.0.0.0\<close> it carries the message of
  the zero address, in the mode \<open>hosts\<close> and in the mode \<open>mascara\<close> alike. When the
  address is valid, the mode decides: in the mode \<open>mascara\<close> an invalid mask gives the
  invalid outcome with the message of the mask; in the mode \<open>hosts\<close> an invalid host
  count that is a string, the number zero or \<open>NaN\<close> gives the invalid outcome with the
  message of the host count; in every other case of a valid address the outcome is the
  valid one. But an invalid host count that is any other Number is not returned as a
  failure: the call raises \<open>TypeError\<close>, as for \<open>192.168.1.100\<close> with 16777215 hosts.
\<close>

theorem first_failure_returned:
  "(\<not> esDireccionIPValida ip \<longrightarrow>
      (\<exists>m. obtenerMensajeError ''ip'' (JStr ip) = Inr m
          \<and> validarEntradaCompleta ip tipoEntrada masc numeroHosts
              = Inr \<lparr>esValido = False, mensaje = Some m\<rparr>))
   \<and> validarEntradaCompleta ''0.0.0.0'' ''hosts'' masc numeroHosts
        = Inr \<lparr>esValido = False, mensaje = Some msg_ip_cero\<rparr>
   \<and> validarEntradaCompleta ''0.0.0.0'' ''mascara'' masc numeroHosts
        = Inr \<lparr>esValido = False, mensaje = Some msg_ip_cero\<rparr>
   \<and> (esDireccionIPValida ip \<and> \<not> esMascaraSubredValida masc \<longrightarrow>
        validarEntradaCompleta ip ''mascara'' masc numeroHosts
          = Inr \<lparr>esValido = False,
                 mensaje = Some (if masc = [] \<or> js_trim masc = [] then msg_mascara_vacia
                                 else msg_mascara_invalida)\<rparr>)
   \<and> (esDireccionIPValida ip \<and> esMascaraSubredValida masc \<longrightarrow>
        validarEntradaCompleta ip ''mascara'' masc numeroHosts
          = Inr \<lparr>esValido = True, mensaje = None\<rparr>)
   \<and> (esDireccionIPValida ip \<and> \<not> esNumeroHostsValido (JStr s) \<longrightarrow>
        validarEntradaCompleta ip ''hosts'' masc (JStr s)
          = Inr \<lparr>esValido = False,
                 mensaje = Some (if s = [] \<or> js_trim s = [] then msg_hosts_vacio
                                 else (case parseInt_js s of
                                         None \<Rightarrow> msg_hosts_invalido
                                       | Some k \<Rightarrow> if k < 1 then msg_hosts_menor
                                                   else msg_hosts_mayor))\<rparr>)
   \<and> (esDireccionIPValida ip \<and> \<not> esNumeroHostsValido (JNum x) \<longrightarrow>
        validarEntradaCompleta ip ''hosts'' masc (JNum x)
          = (if x = NumZero \<or> x = NumNaN
             then Inr \<lparr>esValido = False, mensaje = Some msg_hosts_vacio\<rparr>
             else Inl TypeError))
   \<and> (esDireccionIPValida ip \<and> esNumeroHostsValido numeroHosts \<longrightarrow>
        validarEntradaCompleta ip ''hosts'' masc numeroHosts
          = Inr \<lparr>esValido = True, mensaje = None\<rparr>)
   \<and> (esDireccionIPValida ip \<and> tipoEntrada \<noteq> ''hosts'' \<and> tipoEntrada \<noteq> ''mascara'' \<longrightarrow>
        validarEntradaCompleta ip tipoEntrada masc numeroHosts
          = Inr \<lparr>esValido = True, mensaje = None\<rparr>)
   \<and> validarEntradaCompleta ''192.168.1.100'' ''hosts'' masc (JNum (NumFinite False 16777215 8))
        = Inl TypeError"
proof -
  have z: "\<not> esDireccionIPValida ''0.0.0.0''" by code_simp
  have m: "obtenerMensajeError ''ip'' (JStr ''0.0.0.0'') = Inr msg_ip_cero" by code_simp
  have g: "validarEntradaCompleta ip tipoEntrada masc numeroHosts
              = Inr \<lparr>esValido = False, mensaje = Some m\<rparr>"
    if "\<not> esDireccionIPValida ip" "obtenerMensajeError ''ip'' (JStr ip) = Inr m"
    for ip tipoEntrada masc numeroHosts m
    using that by (simp add: validarEntradaCompleta_def)
  have 1: "\<not> esDireccionIPValida ip \<longrightarrow>
      (\<exists>m. obtenerMensajeError ''ip'' (JStr ip) = Inr m
          \<and> validarEntradaCompleta ip tipoEntrada masc numeroHosts
              = Inr \<lparr>esValido = False, mensaje = Some m\<rparr>)"
    using g obtenerMensajeError_ip by blast
  have 2: "validarEntradaCompleta ''0.0.0.0'' ''hosts'' masc numeroHosts
        = Inr \<lparr>esValido = False, mensaje = Some msg_ip_cero\<rparr>"
    using g [OF z m] .
  have 3: "validarEntradaCompleta ''0.0.0.0'' ''mascara'' masc numeroHosts
        = Inr \<lparr>esValido = False, mensaje = Some msg_ip_cero\<rparr>"
    using g [OF z m] .
  have 4: "esDireccionIPValida ip \<and> \<not> esMascaraSubredValida masc \<longrightarrow>
        validarEntradaCompleta ip ''mascara'' masc numeroHosts
          = Inr \<lparr>esValido = False,
                 mensaje = Some (if masc = [] \<or> js_trim masc = [] then msg_mascara_vacia
                                 else msg_mascara_invalida)\<rparr>"
    by (simp add: validarEntradaCompleta_def obtenerMensajeError_mascara)
  have 5: "esDireccionIPValida ip \<and> esMascaraSubredValida masc \<longrightarrow>
        validarEntradaCompleta ip ''mascara'' masc numeroHosts
          = Inr \<lparr>esValido = True, mensaje = None\<rparr>"
    by (simp add: validarEntradaCompleta_def)
  have 6: "esDireccionIPValida ip \<and> \<not> esNumeroHostsValido (JStr s) \<longrightarrow>
        validarEntradaCompleta ip ''hosts'' masc (JStr s)
          = Inr \<lparr>esValido = False,
                 mensaje = Some (if s = [] \<or> js_trim s = [] then msg_hosts_vacio
                                 else (case parseInt_js s of
                                         None \<Rightarrow> msg_hosts_invalido
                                       | Some k \<Rightarrow> if k < 1 then msg_hosts_menor
                                                   else msg_hosts_mayor))\<rparr>"
    by (auto simp: validarEntradaCompleta_def obtenerMensajeError_hosts_string
          esNumeroHostsValido_def split: option.splits)
  have 7: "esDireccionIPValida ip \<and> \<not> esNumeroHostsValido (JNum x) \<longrightarrow>
        validarEntradaCompleta ip ''hosts'' masc (JNum x)
          = (if x = NumZero \<or> x = NumNaN
             then Inr \<lparr>esValido = False, mensaje = Some msg_hosts_vacio\<rparr>
             else Inl TypeError)"
    by (simp add: validarEntradaCompleta_def obtenerMensajeError_hosts_number)
  have 8: "esDireccionIPValida ip \<and> esNumeroHostsValido numeroHosts \<longrightarrow>
        validarEntradaCompleta ip ''hosts'' masc numeroHosts
          = Inr \<lparr>esValido = True, mensaje = None\<rparr>"
    by (simp add: validarEntradaCompleta_def)
  have 9: "esDireccionIPValida ip \<and> tipoEntrada \<noteq> ''hosts'' \<and> tipoEntrada \<noteq> ''mascara'' \<longrightarrow>
        validarEntradaCompleta ip tipoEntrada masc numeroHosts
          = Inr \<lparr>esValido = True, mensaje = None\<rparr>"
    by (simp add: validarEntradaCompleta_def)
  have v: "esDireccionIPValida ''192.168.1.100''" by code_simp
  note h = esNumeroHostsValido_16777215
  have 10: "validarEntradaCompleta ''192.168.1.100'' ''hosts'' masc (JNum (NumFinite False 16777215 8))
        = Inl TypeError"
    using v h by (simp add: validarEntradaCompleta_def obtenerMensajeError_hosts_number)
  show ?thesis using 1 2 3 4 5 6 7 8 9 10 by (intro conjI)
qed

theorem first_failure_returned_witness:
  "\<not> esDireccionIPValida ''256.1.1.1''
   \<and> validarEntradaCompleta ''256.1.1.1'' ''mascara'' ''255.0.255.0'' (JNum NumZero)
       = Inr \<lparr>esValido = False, mensaje = Some msg_ip_invalida\<rparr>
   \<and> esDireccionIPValida ''10.0.0.1'' \<and> \<not> esMascaraSubredValida ''255.0.255.0''
   \<and> validarEntradaCompleta ''10.0.0.1'' ''mascara'' ''255.0.255.0'' (JNum (NumFinite False 5 2))
       = Inr \<lparr>esValido = False, mensaje = Some msg_mascara_invalida\<rparr>
   \<and> \<not> esNumeroHostsValido (JStr ''0'')
   \<and> validarEntradaCompleta ''10.0.0.1'' ''hosts'' ''255.0.255.0'' (JStr ''0'')
       = Inr \<lparr>esValido = False, mensaje = Some msg_hosts_menor\<rparr>
   \<and> \<not> esNumeroHostsValido (JNum (NumFinite True 3 1))
   \<and> validarEntradaCompleta ''10.0.0.1'' ''hosts'' ''255.0.255.0'' (JNum (NumFinite True 3 1))
       = Inl TypeError
   \<and> esMascaraSubredValida ''255.255.255.0'' \<and> esNumeroHostsValido (JNum (NumFinite False 5 2))
   \<and> validarEntradaCompleta ''10.0.0.1'' ''mascara'' ''255.255.255.0'' (JNum (NumFinite False 5 2))
       = Inr \<lparr>esValido = True, mensaje = None\<rparr>
   \<and> validarEntradaCompleta ''10.0.0.1'' ''hosts'' ''255.255.255.0'' (JNum (NumFinite False 5 2))
       = Inr \<lparr>esValido = True, mensaje = None\<rparr>
   \<and> validarEntradaCompleta ''10.0.0.1'' ''cidr'' ''255.255.255.0'' (JNum (NumFinite False 5 2))
       = Inr \<lparr>esValido = True, mensaje = None\<rparr>"
proof -
  have a: "\<not> esDireccionIPValida ''256.1.1.1''" by code_simp
  have am: "obtenerMensajeError ''ip'' (JStr ''256.1.1.1'') = Inr msg_ip_invalida" by code_simp
  have b: "esDireccionIPValida ''10.0.0.1''" by code_simp
  have c: "\<not> esMascaraSubredValida ''255.0.255.0''" by code_simp
  have ct: "\<not> (''255.0.255.0'' = [] \<or> js_trim ''255.0.255.0'' = [])" by code_simp
  have d: "\<not> esNumeroHostsValido (JStr ''0'')" by code_simp
  have dt: "\<not> (''0'' = [] \<or> js_trim ''0'' = [])" by code_simp
  have dp: "parseInt_js ''0'' = Some 0" by code_simp
  have e: "\<not> esNumeroHostsValido (JNum (NumFinite True 3 1))" by code_simp
  have f: "esMascaraSubredValida ''255.255.255.0''" by code_simp
  have g: "esNumeroHostsValido (JNum (NumFinite False 5 2))" by code_simp
  have k: "''cidr'' \<noteq> ''hosts'' \<and> ''cidr'' \<noteq> ''mascara''" by simp
  note A = first_failure_returned
    [of "''256.1.1.1''" "''mascara''" "''255.0.255.0''" "JNum NumZero" "''0''" "NumZero"]
  note B = first_failure_returned
    [of "''10.0.0.1''" "''cidr''" "''255.0.255.0''" "JNum (NumFinite False 5 2)" "''0''"
        "NumFinite True 3 1"]
  note C = first_failure_returned
    [of "''10.0.0.1''" "''cidr''" "''255.255.255.0''" "JNum (NumFinite False 5 2)" "''0''"
        "NumFinite True 3 1"]
  have 1: "validarEntradaCompleta ''256.1.1.1'' ''mascara'' ''255.0.255.0'' (JNum NumZero)
       = Inr \<lparr>esValido = False, mensaje = Some msg_ip_invalida\<rparr>"
    using A a am by auto
  have 2: "validarEntradaCompleta ''10.0.0.1'' ''mascara'' ''255.0.255.0'' (JNum (NumFinite False 5 2))
       = Inr \<lparr>esValido = False, mensaje = Some msg_mascara_invalida\<rparr>"
    using B b c ct by simp
  have 3: "validarEntradaCompleta ''10.0.0.1'' ''hosts'' ''255.0.255.0'' (JStr ''0'')
       = Inr \<lparr>esValido = False, mensaje = Some msg_hosts_menor\<rparr>"
    using B b d dt dp by simp
  have 4: "validarEntradaCompleta ''10.0.0.1'' ''hosts'' ''255.0.255.0'' (JNum (NumFinite True 3 1))
       = Inl TypeError"
    using B b e by simp
  have 5: "validarEntradaCompleta ''10.0.0.1'' ''mascara'' ''255.255.255.0'' (JNum (NumFinite False 5 2))
       = Inr \<lparr>esValido = True, mensaje = None\<rparr>"
    using C b f by simp
  have 6: "validarEntradaCompleta ''10.0.0.1'' ''hosts'' ''255.255.255.0'' (JNum (NumFinite False 5 2))
       = Inr \<lparr>esValido = True, mensaje = None\<rparr>"
    using C b g by simp
  have 7: "validarEntradaCompleta ''10.0.0.1'' ''cidr'' ''255.255.255.0'' (JNum (NumFinite False 5 2))
       = Inr \<lparr>esValido = True, mensaje = None\<rparr>"
    using C b k by simp
  show ?thesis using a b c d e f g 1 2 3 4 5 6 7 by (intro conjI)
qed

section \<open>Host counts are never negative on validated input\<close>

lemma valid_mask_info:
  assumes "esMascaraSubredValida m"
  shows "\<exists>info p. obtenerInfoAdicional m = Some info \<and> 1 \<le> p \<and> p \<le> 31
          \<and> notacionCIDR info = int p \<and> bitsRed info = int p
          \<and> mascaraBinaria info = replicate p (CHR ''1'') @ replicate (32 - p) (CHR ''0'')
          \<and> calcularHostsDesdeMascara m = Some (2 ^ (32 - p) - 2)"
proof -
  from assms obtain b0 b1 b2 b3 p :: nat where b: "b0 < 256" "b1 < 256" "b2 < 256" "b3 < 256"
    "octetos_de m = Some [int b0, int b1, int b2, int b3]"
    and p: "1 \<le> p" "p \<le> 31"
    "binario_de [int b0, int b1, int b2, int b3]
       = replicate p (CHR ''1'') @ replicate (32 - p) (CHR ''0'')"
    by (rule valid_mask_octets)
  have c1: "length (filter (\<lambda>bit. bit = CHR ''1'')
              (replicate p (CHR ''1'') @ replicate (32 - p) (CHR ''0''))) = p"
    and c0: "length (filter (\<lambda>bit. bit = CHR ''0'')
              (replicate p (CHR ''1'') @ replicate (32 - p) (CHR ''0''))) = 32 - p"
    by (rule count_ones_zeros)+
  show ?thesis
    using p(1,2)
    by (simp add: obtenerInfoAdicional_def calcularHostsDesdeMascara_def Let_def b(5) p(3) c1 c0)
qed

lemma two_le_power: "1 \<le> k \<Longrightarrow> (2::int) \<le> 2 ^ k"
proof -
  assume "1 \<le> k"
  then have "(2::int) ^ 1 \<le> 2 ^ k" by (intro power_increasing) simp_all
  then show ?thesis by simp
qed

lemma esValido_of_result:
  assumes "calcularSubredCompleta ip m = Some r" "ipANumero ip = Some a" "ipANumero m = Some k"
    "m \<noteq> []" "0 \<le> totalHosts r"
  shows "ResultadoIp_esValido r"
proof -
  obtain h where h: "calcularHostsDesdeMascara m = Some h"
    using assms(1) by (auto simp: calcularSubredCompleta_def split: option.splits)
  from calcularSubredCompleta_words [OF assms(2,3) h] assms(1,4,5)
  show ?thesis by (auto simp: ResultadoIp_esValido_def numeroAIp_nonempty)
qed

lemma octetos_ipANumero:
  "octetos_de m = Some [b0, b1, b2, b3] \<Longrightarrow> \<exists>k. ipANumero m = Some k"
  by (simp add: ipANumero_def)

lemma octetos_de_nonempty: "octetos_de m = Some [b0, b1, b2, b3] \<Longrightarrow> m \<noteq> []"
  by (auto simp: octetos_de_def split: option.splits)

lemma calcularSubredPorHosts_too_many:
  assumes "4294967294 < h"
  shows "calcularSubredPorHosts ip h = Inl RangeError"
proof -
  have pos: "0 < nat (h + 2)" using assms by simp
  have "\<not> nat (h + 2) \<le> 2 ^ 32" using assms by simp
  moreover have "ceil_log2 (nat (h + 2)) \<le> 32 \<longleftrightarrow> nat (h + 2) \<le> 2 ^ 32"
    using pos by (rule ceil_log2_le_iff)
  ultimately have "\<not> ceil_log2 (nat (h + 2)) \<le> 32" by blast
  then have "calcularMascaraDesdeHosts h = Inl RangeError"
    using assms by (simp add: calcularMascaraDesdeHosts_def ceil_log2_js_def js_sub_def Let_def)
  then show ?thesis by (simp add: calcularSubredPorHosts_def)
qed

text \<open>
  Claim C10. A mask accepted by \<open>esMascaraSubredValida\<close> has a prefix between 1 and 31
  (0.0.0.0 and 255.255.255.255 are rejected), so \<open>calcularHostsDesdeMascara\<close> returns a
  count that is not negative, and the result built for any accepted address passes
  \<open>esValido\<close>. The same holds for the result built from an accepted address and a host
  count: from 0 to 4294967294 (the accepted counts, 1 to 16777214, are among them) the
  result is built, its host count is not negative and it passes \<open>esValido\<close>; a larger
  count builds no result, since \<open>calcularMascaraDesdeHosts\<close> raises \<open>RangeError\<close>.
\<close>

theorem validated_hosts_nonnegative:
  "(esMascaraSubredValida m \<longrightarrow>
      (\<exists>info k. obtenerInfoAdicional m = Some info
         \<and> 1 \<le> notacionCIDR info \<and> notacionCIDR info \<le> 31
         \<and> calcularHostsDesdeMascara m = Some k \<and> 0 \<le> k
         \<and> (esDireccionIPValida ip \<longrightarrow>
              (\<exists>r. calcularSubredCompleta ip m = Some r \<and> totalHosts r = k
                  \<and> ResultadoIp_esValido r))))
   \<and> (esDireccionIPValida ip \<and> 0 \<le> h \<and> h \<le> 4294967294 \<longrightarrow>
        (\<exists>r. calcularSubredPorHosts ip h = Inr r \<and> 0 \<le> totalHosts r \<and> ResultadoIp_esValido r))
   \<and> (4294967294 < h \<longrightarrow> calcularSubredPorHosts ip h = Inl RangeError)
   \<and> \<not> esMascaraSubredValida ''0.0.0.0''
   \<and> \<not> esMascaraSubredValida ''255.255.255.255''"
proof (intro conjI impI)
  assume v: "esMascaraSubredValida m"
  then have vm: "esDireccionIPValida m" by (auto simp: esMascaraSubredValida_def split: if_splits)
  from valid_mask_info [OF v] obtain info p where i: "obtenerInfoAdicional m = Some info"
    "1 \<le> p" "p \<le> 31" "notacionCIDR info = int p"
    "calcularHostsDesdeMascara m = Some (2 ^ (32 - p) - 2)"
    by blast
  have nn: "(0::int) \<le> 2 ^ (32 - p) - 2" using two_le_power [of "32 - p"] i(3) by simp
  obtain k where k: "ipANumero m = Some k"
    using vm regex_ipANumero esDireccionIPValida_regex by blast
  have mne: "m \<noteq> []" using vm by (auto simp: esDireccionIPValida_def)
  have res: "\<exists>r. calcularSubredCompleta ip m = Some r \<and> totalHosts r = 2 ^ (32 - p) - 2
                  \<and> ResultadoIp_esValido r"
    if vi: "esDireccionIPValida ip"
  proof -
    obtain a where a: "ipANumero ip = Some a"
      using vi regex_ipANumero esDireccionIPValida_regex by blast
    from calcularSubredCompleta_words [OF a k i(5)] obtain r where
      r: "calcularSubredCompleta ip m = Some r" "totalHosts r = 2 ^ (32 - p) - 2"
      by simp
    from esValido_of_result [OF r(1) a k mne] nn r show ?thesis by simp
  qed
  from i nn res
  show "\<exists>info k. obtenerInfoAdicional m = Some info
         \<and> 1 \<le> notacionCIDR info \<and> notacionCIDR info \<le> 31
         \<and> calcularHostsDesdeMascara m = Some k \<and> 0 \<le> k
         \<and> (esDireccionIPValida ip \<longrightarrow>
              (\<exists>r. calcularSubredCompleta ip m = Some r \<and> totalHosts r = k
                  \<and> ResultadoIp_esValido r))"
    by auto
next
  assume hyp: "esDireccionIPValida ip \<and> 0 \<le> h \<and> h \<le> 4294967294"
  then have v: "esDireccionIPValida ip" and h: "-1 \<le> h" "h \<le> 4294967294" by simp_all
  define c where "c = ceil_log2 (nat (h + 2))"
  define x where "x = replicate (32 - c) (CHR ''1'') @ replicate c (CHR ''0'')"
  have c: "c \<le> 32" unfolding c_def by (rule calcularMascaraDesdeHosts_range(1) [OF h])
  have m: "calcularMascaraDesdeHosts h = Inr (octetos_de_binario x)"
    unfolding x_def c_def by (rule calcularMascaraDesdeHosts_range(2) [OF h])
  have "(2::nat) ^ 1 < 2 * nat (h + 2)" using hyp by simp
  then have c1: "1 \<le> c" unfolding c_def by (subst ceil_log2_ge_iff) (use h in simp_all)
  have p: "32 - c \<le> 32" "32 - (32 - c) = c" using c by simp_all
  have xe: "replicate (32 - c) (CHR ''1'') @ replicate (32 - (32 - c)) (CHR ''0'') = x"
    unfolding x_def p(2) ..
  from prefix_mask_string [OF p(1)]
  obtain b0 b1 b2 b3 :: nat where b: "octetos_de (octetos_de_binario x) = Some [int b0, int b1, int b2, int b3]"
    unfolding xe by blast
  from prefix_mask_info [OF p(1)]
  have hs: "calcularHostsDesdeMascara (octetos_de_binario x) = Some (2 ^ c - 2)"
    unfolding p(2) x_def by blast
  obtain k where k: "ipANumero (octetos_de_binario x) = Some k"
    using octetos_ipANumero [OF b] by blast
  obtain a where a: "ipANumero ip = Some a"
    using v regex_ipANumero esDireccionIPValida_regex by blast
  from calcularSubredCompleta_words [OF a k hs] obtain r where
    r: "calcularSubredCompleta ip (octetos_de_binario x) = Some r" "totalHosts r = 2 ^ c - 2"
    by simp
  have nn: "0 \<le> totalHosts r" using two_le_power [OF c1] r(2) by simp
  have "ResultadoIp_esValido r"
    by (rule esValido_of_result [OF r(1) a k octetos_de_nonempty [OF b] nn])
  with r nn m show "\<exists>r. calcularSubredPorHosts ip h = Inr r \<and> 0 \<le> totalHosts r
      \<and> ResultadoIp_esValido r"
    by (simp add: calcularSubredPorHosts_def)
next
  assume big: "4294967294 < h"
  then show "calcularSubredPorHosts ip h = Inl RangeError"
    by (rule calcularSubredPorHosts_too_many)
next
  show "\<not> esMascaraSubredValida ''0.0.0.0''" by code_simp
next
  show "\<not> esMascaraSubredValida ''255.255.255.255''" by code_simp
qed

theorem validated_hosts_nonnegative_witness:
  "esMascaraSubredValida ''255.255.255.254'' \<and> esDireccionIPValida ''10.0.0.50''
   \<and> (0::int) \<le> 50 \<and> (50::int) \<le> 4294967294
   \<and> (\<exists>info k. obtenerInfoAdicional ''255.255.255.254'' = Some info
         \<and> 1 \<le> notacionCIDR info \<and> notacionCIDR info \<le> 31
         \<and> calcularHostsDesdeMascara ''255.255.255.254'' = Some k \<and> 0 \<le> k
         \<and> (\<exists>r. calcularSubredCompleta ''10.0.0.50'' ''255.255.255.254'' = Some r
                \<and> totalHosts r = k \<and> ResultadoIp_esValido r))
   \<and> (\<exists>r. calcularSubredPorHosts ''10.0.0.50'' 50 = Inr r \<and> 0 \<le> totalHosts r
          \<and> ResultadoIp_esValido r)
   \<and> (4294967294::int) < 4294967295
   \<and> calcularSubredPorHosts ''10.0.0.50'' 4294967295 = Inl RangeError"
proof -
  have v1: "esMascaraSubredValida ''255.255.255.254''" by code_simp
  have v2: "esDireccionIPValida ''10.0.0.50''" by code_simp
  have v3: "(0::int) \<le> 50" "(50::int) \<le> 4294967294" by simp_all
  have v4: "(4294967294::int) < 4294967295" by simp
  from validated_hosts_nonnegative [of "''255.255.255.254''" "''10.0.0.50''" 50] v1 v2 v3
  have a: "(\<exists>info k. obtenerInfoAdicional ''255.255.255.254'' = Some info
         \<and> 1 \<le> notacionCIDR info \<and> notacionCIDR info \<le> 31
         \<and> calcularHostsDesdeMascara ''255.255.255.254'' = Some k \<and> 0 \<le> k
         \<and> (\<exists>r. calcularSubredCompleta ''10.0.0.50'' ''255.255.255.254'' = Some r
                \<and> totalHosts r = k \<and> ResultadoIp_esValido r))
   \<and> (\<exists>r. calcularSubredPorHosts ''10.0.0.50'' 50 = Inr r \<and> 0 \<le> totalHosts r
          \<and> ResultadoIp_esValido r)"
    by blast
  from validated_hosts_nonnegative [of "''255.255.255.254''" "''10.0.0.50''" 4294967295] v4
  have b: "calcularSubredPorHosts ''10.0.0.50'' 4294967295 = Inl RangeError" by blast
  from a b v1 v2 v3 v4 show ?thesis by blast
qed

section \<open>Masks as runs of ones\<close>

lemma prefix_word:
  assumes "p \<le> 32"
  shows "(of_nat ((2 ^ p - 1) * 2 ^ (32 - p)) :: u32) = push_bit (32 - p) (mask p)"
proof -
  have "(of_nat (2 ^ p - 1 :: nat) :: u32) = 2 ^ p - 1" by (simp add: of_nat_diff)
  then have "(of_nat (2 ^ p - 1 :: nat) :: u32) = mask p" by (simp add: mask_eq_exp_minus_1)
  then show ?thesis by (simp add: push_bit_eq_mult)
qed

lemma prefix_bound:
  assumes "p \<le> 32"
  shows "(2 ^ p - 1) * 2 ^ (32 - p) < (2 ^ 32 :: nat)"
proof -
  have "(2 ^ p - 1) * 2 ^ (32 - p) < (2 ^ p :: nat) * 2 ^ (32 - p)"
    by (intro mult_strict_right_mono) simp_all
  also have "\<dots> = 2 ^ 32" using assms by (simp flip: power_add)
  finally show ?thesis .
qed

lemma unat_of_nat_u32: "w = (of_nat n :: u32) \<Longrightarrow> n < 2 ^ 32 \<Longrightarrow> unat w = n"
  by (simp add: unat_of_nat)

lemma prefix_bits:
  "bit (push_bit n (mask p) :: u32) i \<longleftrightarrow> n \<le> i \<and> i < 32 \<and> i - n < p"
  by (auto simp: bit_push_bit_iff bit_mask_iff)

lemma ones_then_zeros_prefix:
  assumes "p \<le> 32"
  shows "spec_ones_then_zeros (of_nat ((2 ^ p - 1) * 2 ^ (32 - p)))"
  unfolding spec_ones_then_zeros_def prefix_word [OF assms] prefix_bits
  using assms by auto

lemma ones_then_zeros_value:
  assumes "spec_ones_then_zeros w"
  shows "\<exists>p\<le>32. unat w = (2 ^ p - 1) * 2 ^ (32 - p)"
proof (cases "w = 0")
  case True
  then show ?thesis by (intro exI [of _ 0]) simp
next
  case False
  then obtain j0 where "bit w j0" by (auto simp: bit_eq_iff)
  define k where "k = (LEAST j. bit w j)"
  have k: "bit w k" unfolding k_def using \<open>bit w j0\<close> by (rule LeastI)
  have lo: "\<not> bit w j" if "j < k" for j using that not_less_Least unfolding k_def by blast
  have k32: "k < 32" using k bit_imp_le_length [of w k] by simp
  have hi: "bit w i" if "k < i" "i < 32" for i
  proof -
    have "i \<in> {0..<32}" "k \<in> {0..<i}" using that by simp_all
    with assms k show ?thesis unfolding spec_ones_then_zeros_def by blast
  qed
  have b: "bit w i \<longleftrightarrow> k \<le> i \<and> i < 32" for i
  proof (cases "i < 32")
    case True
    have "k \<le> i" if "bit w i" using lo [of i] that not_less by blast
    moreover have "bit w i" if "k \<le> i" using hi [of i] k that True by (cases "i = k") auto
    ultimately show ?thesis using True by blast
  next
    case False
    then show ?thesis using bit_imp_le_length [of w i] by auto
  qed
  define p where "p = 32 - k"
  have p: "p \<le> 32" "32 - p = k" using k32 by (simp_all add: p_def)
  have "w = push_bit (32 - p) (mask p)"
    by (rule bit_eqI) (use p k32 in \<open>auto simp: b prefix_bits p_def\<close>)
  then have "w = of_nat ((2 ^ p - 1) * 2 ^ (32 - p))" using prefix_word [OF p(1)] by simp
  then have "unat w = (2 ^ p - 1) * 2 ^ (32 - p)"
    using prefix_bound [OF p(1)] by (rule unat_of_nat_u32)
  then show ?thesis using p(1) by blast
qed

lemma address_word_octets:
  fixes b0 b1 b2 b3 :: nat
  assumes "b0 < 256" "b1 < 256" "b2 < 256" "b3 < 256"
  shows "(word_of_int (js_shl (int b0) 24 + js_shl (int b1) 16 + js_shl (int b2) 8 + int b3) :: u32)
           = of_nat (b0 * 16777216 + b1 * 65536 + b2 * 256 + b3)"
    and "b0 * 16777216 + b1 * 65536 + b2 * 256 + b3 < 2 ^ 32"
proof -
  have e: "js_shl (int b0) 24 + js_shl (int b1) 16 + js_shl (int b2) 8 + int b3 =
         (if int b0 < 128 then int b0 else int b0 - 256) * 16777216
           + int b1 * 65536 + int b2 * 256 + int b3"
    by (rule pack_octets) (use assms in simp_all)
  have z: "(word_of_int (x - 256 * 16777216) :: u32) = word_of_int x" for x
    by (simp add: word_of_int_eq_iff take_bit_eq_mod)
  show "(word_of_int (js_shl (int b0) 24 + js_shl (int b1) 16 + js_shl (int b2) 8 + int b3) :: u32)
           = of_nat (b0 * 16777216 + b1 * 65536 + b2 * 256 + b3)"
  proof (cases "int b0 < 128")
    case True
    then show ?thesis unfolding e by simp
  next
    case False
    have "(int b0 - 256) * 16777216 + int b1 * 65536 + int b2 * 256 + int b3
          = (int b0 * 16777216 + int b1 * 65536 + int b2 * 256 + int b3) - 256 * 16777216"
      by (simp add: algebra_simps)
    then show ?thesis unfolding e using False z by simp
  qed
  show "b0 * 16777216 + b1 * 65536 + b2 * 256 + b3 < 2 ^ 32" using assms by simp
qed

text \<open>
  Claim C5. \<open>esMascaraSubredValida\<close> accepts a string exactly when
  \<open>esDireccionIPValida\<close> accepts it and its 32-bit value has no 1 after a 0, reading
  from the most significant bit. The mask \<open>255.0.255.0\<close> is rejected.
\<close>

theorem mask_valid_iff:
  "(esMascaraSubredValida s \<longleftrightarrow>
      esDireccionIPValida s \<and> (\<exists>w. address_word s = Some w \<and> spec_ones_then_zeros w))
   \<and> \<not> esMascaraSubredValida ''255.0.255.0''"
proof (rule conjI, rule iffI)
  assume v: "esMascaraSubredValida s"
  then have vs: "esDireccionIPValida s"
    by (auto simp: esMascaraSubredValida_def split: if_splits)
  from v obtain b0 b1 b2 b3 p :: nat where b: "b0 < 256" "b1 < 256" "b2 < 256" "b3 < 256"
    "octetos_de s = Some [int b0, int b1, int b2, int b3]"
    and p: "1 \<le> p" "p \<le> 31"
    and n: "b0 * 16777216 + b1 * 65536 + b2 * 256 + b3 = (2 ^ p - 1) * 2 ^ (32 - p)"
    by (rule valid_mask_octets) blast
  have "address_word s = Some (of_nat ((2 ^ p - 1) * 2 ^ (32 - p)))"
    using ipANumero_octets [OF b(5)] address_word_octets(1) [OF b(1-4)] n
    by (simp add: address_word_def)
  moreover have "spec_ones_then_zeros (of_nat ((2 ^ p - 1) * 2 ^ (32 - p)))"
    by (rule ones_then_zeros_prefix) (use p in simp)
  ultimately show "esDireccionIPValida s \<and> (\<exists>w. address_word s = Some w \<and> spec_ones_then_zeros w)"
    using vs by blast
next
  assume a: "esDireccionIPValida s \<and> (\<exists>w. address_word s = Some w \<and> spec_ones_then_zeros w)"
  then have vs: "esDireccionIPValida s" by simp
  from a obtain w where w: "address_word s = Some w" "spec_ones_then_zeros w" by blast
  from vs obtain b0 b1 b2 b3 :: nat where b: "b0 < 256" "b1 < 256" "b2 < 256" "b3 < 256"
    "octetos_de s = Some [int b0, int b1, int b2, int b3]"
    by (rule valid_ip_octets) blast
  define v where "v = b0 * 16777216 + b1 * 65536 + b2 * 256 + b3"
  have "w = of_nat (b0 * 16777216 + b1 * 65536 + b2 * 256 + b3)"
    using w(1) ipANumero_octets [OF b(5)] address_word_octets(1) [OF b(1-4)]
    by (simp add: address_word_def)
  then have uw: "unat w = v"
    unfolding v_def using address_word_octets(2) [OF b(1-4)] by (rule unat_of_nat_u32)
  from ones_then_zeros_value [OF w(2)] obtain p where p: "p \<le> 32"
    "v = (2 ^ p - 1) * 2 ^ (32 - p)" unfolding uw by blast
  define x where "x = binario_de [int b0, int b1, int b2, int b3]"
  define y where "y = replicate p (CHR ''1'') @ replicate (32 - p) (CHR ''0'')"
  have x: "length x = 32" "list_all is_bit x" "radix_val 2 x = v"
    unfolding x_def v_def by (rule binario_de_octets [OF b(1-4)])+
  have y1: "length y = 32" "radix_val 2 y = v"
    unfolding y_def using p by (simp_all add: radix_val_ones_zeros)
  have y2: "list_all is_bit y" unfolding y_def list_all_append
    by (intro conjI bits_replicate) (simp_all add: is_bit_def)
  note y = y1 y2
  have "x = y" by (rule bits_inject) (use x y in simp_all)
  then have "rx_test patronMascara x" unfolding y_def patronMascara_iff by blast
  then show "esMascaraSubredValida s"
    using vs b(5) by (simp add: esMascaraSubredValida_def x_def)
next
  show "\<not> esMascaraSubredValida ''255.0.255.0''" by code_simp
qed

theorem mask_valid_iff_witness:
  "esMascaraSubredValida ''255.255.255.0'' \<and> esDireccionIPValida ''255.255.255.0''
   \<and> (\<exists>w. address_word ''255.255.255.0'' = Some w \<and> spec_ones_then_zeros w)
   \<and> esDireccionIPValida ''255.0.255.0''
   \<and> \<not> (\<exists>w. address_word ''255.0.255.0'' = Some w \<and> spec_ones_then_zeros w)"
proof -
  have a: "esMascaraSubredValida ''255.255.255.0''" by code_simp
  have b: "esDireccionIPValida ''255.0.255.0''" by code_simp
  from mask_valid_iff [of "''255.255.255.0''"] a
  have c: "esDireccionIPValida ''255.255.255.0''
     \<and> (\<exists>w. address_word ''255.255.255.0'' = Some w \<and> spec_ones_then_zeros w)" by blast
  from mask_valid_iff [of "''255.0.255.0''"] b
  have d: "\<not> (\<exists>w. address_word ''255.0.255.0'' = Some w \<and> spec_ones_then_zeros w)" by blast
  from a b c d show ?thesis by blast
qed

section \<open>Masks for a list of host counts\<close>

lemma calcularMascaraDesdeHosts_too_many:
  assumes "4294967294 < h"
  shows "calcularMascaraDesdeHosts h = Inl RangeError"
proof -
  have pos: "0 < nat (h + 2)" using assms by simp
  have "\<not> nat (h + 2) \<le> 2 ^ 32" using assms by simp
  moreover have "ceil_log2 (nat (h + 2)) \<le> 32 \<longleftrightarrow> nat (h + 2) \<le> 2 ^ 32"
    using pos by (rule ceil_log2_le_iff)
  ultimately have "\<not> ceil_log2 (nat (h + 2)) \<le> 32" by blast
  then show ?thesis
    using assms by (simp add: calcularMascaraDesdeHosts_def ceil_log2_js_def js_sub_def Let_def)
qed

lemma mask_for_hosts:
  assumes "1 \<le> h" "h \<le> 4294967294"
  shows "\<exists>m info d. calcularMascaraDesdeHosts h = Inr m \<and> obtenerInfoAdicional m = Some info
           \<and> calcularHostsDesdeMascara m = Some d \<and> h \<le> d"
proof -
  define n where "n = nat (h + 2)"
  define c where "c = ceil_log2 n"
  have n: "0 < n" "int n = h + 2" unfolding n_def using assms by simp_all
  have h: "-1 \<le> h" using assms by simp
  have c: "c \<le> 32" unfolding c_def n_def by (rule calcularMascaraDesdeHosts_range(1) [OF h assms(2)])
  have m: "calcularMascaraDesdeHosts h =
      Inr (octetos_de_binario (replicate (32 - c) (CHR ''1'') @ replicate c (CHR ''0'')))"
    unfolding c_def n_def by (rule calcularMascaraDesdeHosts_range(2) [OF h assms(2)])
  have "n \<le> 2 ^ c" unfolding c_def using ceil_log2_le_iff [OF n(1), of "ceil_log2 n"] by simp
  then have "int n \<le> 2 ^ c" by (metis of_nat_le_iff of_nat_numeral of_nat_power)
  then have hc: "h \<le> 2 ^ c - 2" using n(2) by simp
  have p: "32 - c \<le> 32" "32 - (32 - c) = c" using c by simp_all
  from prefix_mask_info [OF p(1)] obtain info where
    i: "obtenerInfoAdicional (octetos_de_binario (replicate (32 - c) (CHR ''1'')
            @ replicate c (CHR ''0''))) = Some info"
      "calcularHostsDesdeMascara (octetos_de_binario (replicate (32 - c) (CHR ''1'')
            @ replicate c (CHR ''0''))) = Some (2 ^ c - 2)"
    unfolding p(2) by blast
  from m i hc show ?thesis by blast
qed

lemma optimizar_bucle_entries:
  assumes "\<forall>h\<in>set hs. 1 \<le> h \<and> h \<le> 4294967294"
  shows "\<exists>out. optimizar_bucle idx hs = Inr out
           \<and> map indice out = [idx..<idx + length hs]
           \<and> list_all2 (\<lambda>e h. hostsRequeridos e = h
                 \<and> calcularMascaraDesdeHosts h = Inr (mascara e)
                 \<and> calcularHostsDesdeMascara (mascara e) = Some (hostsDisponibles e)
                 \<and> h \<le> hostsDisponibles e
                 \<and> map_option notacionCIDR (obtenerInfoAdicional (mascara e))
                     = Some (notacionCIDR_subred e)
                 \<and> eficiencia e
                     = toFixed2 (of_int h / of_int (hostsDisponibles e) * 100) @ ''%'') out hs"
  using assms
proof (induction hs arbitrary: idx)
  case Nil
  then show ?case by simp
next
  case (Cons h hs)
  then have h: "1 \<le> h" "h \<le> 4294967294" by simp_all
  from mask_for_hosts [OF h] obtain m info d where
    m: "calcularMascaraDesdeHosts h = Inr m" "obtenerInfoAdicional m = Some info"
       "calcularHostsDesdeMascara m = Some d" "h \<le> d"
    by blast
  have d: "d \<noteq> 0" using m(4) h(1) by simp
  from Cons.IH [of "Suc idx"] Cons.prems obtain out where
    out: "optimizar_bucle (Suc idx) hs = Inr out"
      "map indice out = [Suc idx..<Suc idx + length hs]"
      "list_all2 (\<lambda>e h. hostsRequeridos e = h
                 \<and> calcularMascaraDesdeHosts h = Inr (mascara e)
                 \<and> calcularHostsDesdeMascara (mascara e) = Some (hostsDisponibles e)
                 \<and> h \<le> hostsDisponibles e
                 \<and> map_option notacionCIDR (obtenerInfoAdicional (mascara e))
                     = Some (notacionCIDR_subred e)
                 \<and> eficiencia e
                     = toFixed2 (of_int h / of_int (hostsDisponibles e) * 100) @ ''%'') out hs"
    by auto
  define e where "e = \<lparr>indice = idx, hostsRequeridos = h, hostsDisponibles = d, mascara = m,
      notacionCIDR_subred = notacionCIDR info, eficiencia = eficiencia_de h d\<rparr>"
  have r: "optimizar_bucle idx (h # hs) = Inr (e # out)"
    by (simp add: m out(1) e_def)
  have "[idx..<idx + length (h # hs)] = idx # [Suc idx..<Suc idx + length hs]"
    by (subst upt_conv_Cons) simp_all
  then have ix: "map indice (e # out) = [idx..<idx + length (h # hs)]"
    using out(2) by (simp add: e_def)
  have ef: "eficiencia e = toFixed2 (of_int h / of_int d * 100) @ ''%''"
    using d by (simp add: e_def eficiencia_de_def)
  have fe: "hostsRequeridos e = h" "mascara e = m" "hostsDisponibles e = d"
    "notacionCIDR_subred e = notacionCIDR info"
    by (simp_all add: e_def)
  show ?case
    unfolding r using ix out(3) m ef by (simp add: fe)
qed

lemma sorted_descending:
  "sorted_wrt (\<lambda>a b. b \<le> a) (sort_key (\<lambda>x. - x) (xs :: int list))"
proof -
  have "sorted (map (\<lambda>x. - x) (sort_key (\<lambda>x. - x) xs))" by (rule sorted_sort_key)
  then show ?thesis by (simp add: sorted_map)
qed

lemma stable_descending:
  "filter (\<lambda>h. h = k) (sort_key (\<lambda>x. - x) (xs :: int list)) = filter (\<lambda>h. h = k) xs"
proof -
  have "filter (\<lambda>y. - y = - k) (sort_key (\<lambda>x. - x) xs) = filter (\<lambda>y. - y = - k) xs"
    by (rule sort_key_stable)
  then show ?thesis by simp
qed

lemma optimizarSubredes_store:
  assumes "a < length st"
  shows "optimizarSubredes st a
          = (st @ [sort_key (\<lambda>x. - x) (st ! a)],
             optimizar_bucle 0 (sort_key (\<lambda>x. - x) (st ! a)))"
  using assms by (simp add: optimizarSubredes_def js_spread_def js_sort_desc_def nth_append)

lemma eficiencia_200_254: "eficiencia_de 200 254 = ''78.74%''"
proof -
  have "\<lfloor>\<bar>(of_int 200 / of_int 254 * 100 :: rat)\<bar> * 100 + 1 / 2\<rfloor> = 7874"
    by (simp add: floor_unique)
  moreover have "radix_str 10 7874 = ''7874''"
    by (simp add: radix_str_step radix_str_small digit_char_def char_of_def bit_iff_odd)
  ultimately show ?thesis by (simp add: eficiencia_de_def toFixed2_def Let_def padStart_def)
qed

lemma eficiencia_50_62: "eficiencia_de 50 62 = ''80.65%''"
proof -
  have "\<lfloor>\<bar>(of_int 50 / of_int 62 * 100 :: rat)\<bar> * 100 + 1 / 2\<rfloor> = 8065"
    by (simp add: floor_unique)
  moreover have "radix_str 10 8065 = ''8065''"
    by (simp add: radix_str_step radix_str_small digit_char_def char_of_def bit_iff_odd)
  ultimately show ?thesis by (simp add: eficiencia_de_def toFixed2_def Let_def padStart_def)
qed

lemma eficiencia_10_14: "eficiencia_de 10 14 = ''71.43%''"
proof -
  have "\<lfloor>\<bar>(of_int 10 / of_int 14 * 100 :: rat)\<bar> * 100 + 1 / 2\<rfloor> = 7143"
    by (simp add: floor_unique)
  moreover have "radix_str 10 7143 = ''7143''"
    by (simp add: radix_str_step radix_str_small digit_char_def char_of_def bit_iff_odd)
  ultimately show ?thesis by (simp add: eficiencia_de_def toFixed2_def Let_def padStart_def)
qed

text \<open>
  Claim C9, as the code has it. For an array of host counts between 1 and 4294967294,
  \<open>optimizarSubredes\<close> returns one entry for each count: the counts in descending order,
  equal counts in the order of the input, numbered from 0. Each entry has the mask that
  \<open>calcularMascaraDesdeHosts\<close> gives for its count, the host count of that mask, which is
  not below the count required, the prefix of that mask, and the quotient of the two
  counts in percent with two decimals. The arrays of the store are left as they were;
  the sorted copy is new.
\<close>

theorem optimized_list:
  assumes "a < length st" "\<forall>h\<in>set (st ! a). 1 \<le> h \<and> h \<le> 4294967294"
  shows "(\<exists>st' out. optimizarSubredes st a = (st', Inr out)
          \<and> take (length st) st' = st \<and> st' ! a = st ! a
          \<and> length out = length (st ! a)
          \<and> sorted_wrt (\<lambda>x y. y \<le> x) (map hostsRequeridos out)
          \<and> (\<forall>k. filter (\<lambda>h. h = k) (map hostsRequeridos out) = filter (\<lambda>h. h = k) (st ! a))
          \<and> (\<forall>i<length out.
                indice (out ! i) = i
              \<and> calcularMascaraDesdeHosts (hostsRequeridos (out ! i)) = Inr (mascara (out ! i))
              \<and> calcularHostsDesdeMascara (mascara (out ! i)) = Some (hostsDisponibles (out ! i))
              \<and> hostsRequeridos (out ! i) \<le> hostsDisponibles (out ! i)
              \<and> map_option notacionCIDR (obtenerInfoAdicional (mascara (out ! i)))
                   = Some (notacionCIDR_subred (out ! i))
              \<and> eficiencia (out ! i)
                   = toFixed2 (of_int (hostsRequeridos (out ! i))
                               / of_int (hostsDisponibles (out ! i)) * 100) @ ''%''))
       \<and> optimizarSubredes [[50, 200, 10]] 0
           = ([[50, 200, 10], [200, 50, 10]],
              Inr [\<lparr>indice = 0, hostsRequeridos = 200, hostsDisponibles = 254,
                     mascara = ''255.255.255.0'', notacionCIDR_subred = 24,
                     eficiencia = ''78.74%''\<rparr>,
                   \<lparr>indice = 1, hostsRequeridos = 50, hostsDisponibles = 62,
                     mascara = ''255.255.255.192'', notacionCIDR_subred = 26,
                     eficiencia = ''80.65%''\<rparr>,
                   \<lparr>indice = 2, hostsRequeridos = 10, hostsDisponibles = 14,
                     mascara = ''255.255.255.240'', notacionCIDR_subred = 28,
                     eficiencia = ''71.43%''\<rparr>])"
proof
  define xs where "xs = sort_key (\<lambda>x. - x) (st ! a)"
  have r: "optimizarSubredes st a = (st @ [xs], optimizar_bucle 0 xs)"
    unfolding xs_def by (rule optimizarSubredes_store [OF assms(1)])
  have "\<forall>h\<in>set xs. 1 \<le> h \<and> h \<le> 4294967294" using assms(2) by (simp add: xs_def)
  from optimizar_bucle_entries [OF this, of 0] obtain out where
    out: "optimizar_bucle 0 xs = Inr out" "map indice out = [0..<0 + length xs]"
      "list_all2 (\<lambda>e h. hostsRequeridos e = h
                 \<and> calcularMascaraDesdeHosts h = Inr (mascara e)
                 \<and> calcularHostsDesdeMascara (mascara e) = Some (hostsDisponibles e)
                 \<and> h \<le> hostsDisponibles e
                 \<and> map_option notacionCIDR (obtenerInfoAdicional (mascara e))
                     = Some (notacionCIDR_subred e)
                 \<and> eficiencia e
                     = toFixed2 (of_int h / of_int (hostsDisponibles e) * 100) @ ''%'') out xs"
    by blast
  have len: "length out = length xs" using out(3) by (rule list_all2_lengthD)
  have lx: "length xs = length (st ! a)" by (simp add: xs_def)
  have hr: "hostsRequeridos (out ! i) = xs ! i" if "i < length out" for i
    using list_all2_nthD [OF out(3) that] by simp
  then have mp: "map hostsRequeridos out = xs" using len by (intro nth_equalityI) simp_all
  have 1: "take (length st) (st @ [xs]) = st" "(st @ [xs]) ! a = st ! a"
    using assms(1) by (simp_all add: nth_append)
  have 3: "sorted_wrt (\<lambda>x y. y \<le> x) (map hostsRequeridos out)"
    unfolding mp xs_def by (rule sorted_descending)
  have 4: "\<forall>k. filter (\<lambda>h. h = k) (map hostsRequeridos out) = filter (\<lambda>h. h = k) (st ! a)"
    unfolding mp xs_def by (simp add: stable_descending)
  have 5: "indice (out ! i) = i
              \<and> calcularMascaraDesdeHosts (hostsRequeridos (out ! i)) = Inr (mascara (out ! i))
              \<and> calcularHostsDesdeMascara (mascara (out ! i)) = Some (hostsDisponibles (out ! i))
              \<and> hostsRequeridos (out ! i) \<le> hostsDisponibles (out ! i)
              \<and> map_option notacionCIDR (obtenerInfoAdicional (mascara (out ! i)))
                   = Some (notacionCIDR_subred (out ! i))
              \<and> eficiencia (out ! i)
                   = toFixed2 (of_int (hostsRequeridos (out ! i))
                               / of_int (hostsDisponibles (out ! i)) * 100) @ ''%''"
    if i: "i < length out" for i
  proof -
    have "map indice out ! i = [0..<0 + length xs] ! i" unfolding out(2) ..
    then have "indice (out ! i) = i" using i len by simp
    then show ?thesis using list_all2_nthD [OF out(3) i] hr [OF i] by simp
  qed
  have 6: "\<forall>i<length out.
                indice (out ! i) = i
              \<and> calcularMascaraDesdeHosts (hostsRequeridos (out ! i)) = Inr (mascara (out ! i))
              \<and> calcularHostsDesdeMascara (mascara (out ! i)) = Some (hostsDisponibles (out ! i))
              \<and> hostsRequeridos (out ! i) \<le> hostsDisponibles (out ! i)
              \<and> map_option notacionCIDR (obtenerInfoAdicional (mascara (out ! i)))
                   = Some (notacionCIDR_subred (out ! i))
              \<and> eficiencia (out ! i)
                   = toFixed2 (of_int (hostsRequeridos (out ! i))
                               / of_int (hostsDisponibles (out ! i)) * 100) @ ''%''"
    using 5 by blast
  have 7: "optimizarSubredes st a = (st @ [xs], Inr out)" unfolding r out(1) ..
  have 8: "length out = length (st ! a)" using len lx by simp
  have "optimizarSubredes st a = (st @ [xs], Inr out)
          \<and> take (length st) (st @ [xs]) = st \<and> (st @ [xs]) ! a = st ! a
          \<and> length out = length (st ! a)
          \<and> sorted_wrt (\<lambda>x y. y \<le> x) (map hostsRequeridos out)
          \<and> (\<forall>k. filter (\<lambda>h. h = k) (map hostsRequeridos out) = filter (\<lambda>h. h = k) (st ! a))
          \<and> (\<forall>i<length out.
                indice (out ! i) = i
              \<and> calcularMascaraDesdeHosts (hostsRequeridos (out ! i)) = Inr (mascara (out ! i))
              \<and> calcularHostsDesdeMascara (mascara (out ! i)) = Some (hostsDisponibles (out ! i))
              \<and> hostsRequeridos (out ! i) \<le> hostsDisponibles (out ! i)
              \<and> map_option notacionCIDR (obtenerInfoAdicional (mascara (out ! i)))
                   = Some (notacionCIDR_subred (out ! i))
              \<and> eficiencia (out ! i)
                   = toFixed2 (of_int (hostsRequeridos (out ! i))
                               / of_int (hostsDisponibles (out ! i)) * 100) @ ''%'')"
    using 7 1 8 3 4 6 by (intro conjI)
  then show "\<exists>st' out. optimizarSubredes st a = (st', Inr out)
          \<and> take (length st) st' = st \<and> st' ! a = st ! a
          \<and> length out = length (st ! a)
          \<and> sorted_wrt (\<lambda>x y. y \<le> x) (map hostsRequeridos out)
          \<and> (\<forall>k. filter (\<lambda>h. h = k) (map hostsRequeridos out) = filter (\<lambda>h. h = k) (st ! a))
          \<and> (\<forall>i<length out.
                indice (out ! i) = i
              \<and> calcularMascaraDesdeHosts (hostsRequeridos (out ! i)) = Inr (mascara (out ! i))
              \<and> calcularHostsDesdeMascara (mascara (out ! i)) = Some (hostsDisponibles (out ! i))
              \<and> hostsRequeridos (out ! i) \<le> hostsDisponibles (out ! i)
              \<and> map_option notacionCIDR (obtenerInfoAdicional (mascara (out ! i)))
                   = Some (notacionCIDR_subred (out ! i))
              \<and> eficiencia (out ! i)
                   = toFixed2 (of_int (hostsRequeridos (out ! i))
                               / of_int (hostsDisponibles (out ! i)) * 100) @ ''%'')"
    by (intro exI)
next
  have m: "calcularMascaraDesdeHosts 200 = Inr ''255.255.255.0''"
    "calcularMascaraDesdeHosts 50 = Inr ''255.255.255.192''"
    "calcularMascaraDesdeHosts 10 = Inr ''255.255.255.240''"
    by code_simp+
  have h: "calcularHostsDesdeMascara ''255.255.255.0'' = Some 254"
    "calcularHostsDesdeMascara ''255.255.255.192'' = Some 62"
    "calcularHostsDesdeMascara ''255.255.255.240'' = Some 14"
    by code_simp+
  have i: "map_option notacionCIDR (obtenerInfoAdicional ''255.255.255.0'') = Some 24"
    "map_option notacionCIDR (obtenerInfoAdicional ''255.255.255.192'') = Some 26"
    "map_option notacionCIDR (obtenerInfoAdicional ''255.255.255.240'') = Some 28"
    by code_simp+
  from i obtain i1 i2 i3 where j:
    "obtenerInfoAdicional ''255.255.255.0'' = Some i1" "notacionCIDR i1 = 24"
    "obtenerInfoAdicional ''255.255.255.192'' = Some i2" "notacionCIDR i2 = 26"
    "obtenerInfoAdicional ''255.255.255.240'' = Some i3" "notacionCIDR i3 = 28"
    by auto
  have s: "sort_key (\<lambda>x. - x) [50, 200, 10 :: int] = [200, 50, 10]" by simp
  have b: "optimizar_bucle 0 [200, 50, 10]
     = Inr [\<lparr>indice = 0, hostsRequeridos = 200, hostsDisponibles = 254,
                     mascara = ''255.255.255.0'', notacionCIDR_subred = 24,
                     eficiencia = ''78.74%''\<rparr>,
                   \<lparr>indice = 1, hostsRequeridos = 50, hostsDisponibles = 62,
                     mascara = ''255.255.255.192'', notacionCIDR_subred = 26,
                     eficiencia = ''80.65%''\<rparr>,
                   \<lparr>indice = 2, hostsRequeridos = 10, hostsDisponibles = 14,
                     mascara = ''255.255.255.240'', notacionCIDR_subred = 28,
                     eficiencia = ''71.43%''\<rparr>]"
    by (simp add: m h j eficiencia_200_254 eficiencia_50_62 eficiencia_10_14)
  have "optimizarSubredes [[50, 200, 10]] 0
      = ([[50, 200, 10]] @ [sort_key (\<lambda>x. - x) ([[50, 200, 10]] ! 0)],
         optimizar_bucle 0 (sort_key (\<lambda>x. - x) ([[50, 200, 10]] ! 0)))"
    by (rule optimizarSubredes_store) simp
  then show "optimizarSubredes [[50, 200, 10]] 0
           = ([[50, 200, 10], [200, 50, 10]],
              Inr [\<lparr>indice = 0, hostsRequeridos = 200, hostsDisponibles = 254,
                     mascara = ''255.255.255.0'', notacionCIDR_subred = 24,
                     eficiencia = ''78.74%''\<rparr>,
                   \<lparr>indice = 1, hostsRequeridos = 50, hostsDisponibles = 62,
                     mascara = ''255.255.255.192'', notacionCIDR_subred = 26,
                     eficiencia = ''80.65%''\<rparr>,
                   \<lparr>indice = 2, hostsRequeridos = 10, hostsDisponibles = 14,
                     mascara = ''255.255.255.240'', notacionCIDR_subred = 28,
                     eficiencia = ''71.43%''\<rparr>])"
    using s b by simp
qed

theorem optimized_list_witness:
  "(0::nat) < length [[50, 200, 10 :: int]]
   \<and> list_all (\<lambda>h. 1 \<le> h \<and> h \<le> 4294967294) ([[50, 200, 10 :: int]] ! 0)
   \<and> (\<exists>st' out. optimizarSubredes [[50, 200, 10]] 0 = (st', Inr out)
          \<and> st' ! 0 = [50, 200, 10]
          \<and> length out = 3
          \<and> sorted_wrt (\<lambda>x y. y \<le> x) (map hostsRequeridos out)
          \<and> indice (out ! 2) = 2
          \<and> calcularMascaraDesdeHosts (hostsRequeridos (out ! 2)) = Inr (mascara (out ! 2))
          \<and> calcularHostsDesdeMascara (mascara (out ! 2)) = Some (hostsDisponibles (out ! 2))
          \<and> hostsRequeridos (out ! 2) \<le> hostsDisponibles (out ! 2))"
proof -
  have a: "(0::nat) < length [[50, 200, 10 :: int]]" by simp
  have b: "\<forall>h\<in>set ([[50, 200, 10 :: int]] ! 0). 1 \<le> h \<and> h \<le> 4294967294" by simp
  have b': "list_all (\<lambda>h. 1 \<le> h \<and> h \<le> 4294967294) ([[50, 200, 10 :: int]] ! 0)" by simp
  from optimized_list [OF a b, THEN conjunct1] obtain st' out where
    o: "optimizarSubredes [[50, 200, 10]] 0 = (st', Inr out)"
      "st' ! 0 = [[50, 200, 10]] ! 0" "length out = length ([[50, 200, 10 :: int]] ! 0)"
      "sorted_wrt (\<lambda>x y. y \<le> x) (map hostsRequeridos out)"
    and e: "\<forall>i<length out.
                indice (out ! i) = i
              \<and> calcularMascaraDesdeHosts (hostsRequeridos (out ! i)) = Inr (mascara (out ! i))
              \<and> calcularHostsDesdeMascara (mascara (out ! i)) = Some (hostsDisponibles (out ! i))
              \<and> hostsRequeridos (out ! i) \<le> hostsDisponibles (out ! i)
              \<and> map_option notacionCIDR (obtenerInfoAdicional (mascara (out ! i)))
                   = Some (notacionCIDR_subred (out ! i))
              \<and> eficiencia (out ! i)
                   = toFixed2 (of_int (hostsRequeridos (out ! i))
                               / of_int (hostsDisponibles (out ! i)) * 100) @ ''%''"
    by (elim exE conjE)
  have l: "length out = 3" using o(3) by simp
  then have "2 < length out" by simp
  with e have f: "indice (out ! 2) = 2
          \<and> calcularMascaraDesdeHosts (hostsRequeridos (out ! 2)) = Inr (mascara (out ! 2))
          \<and> calcularHostsDesdeMascara (mascara (out ! 2)) = Some (hostsDisponibles (out ! 2))
          \<and> hostsRequeridos (out ! 2) \<le> hostsDisponibles (out ! 2)"
    by simp
  have s: "st' ! 0 = [50, 200, 10]" using o(2) by simp
  have "optimizarSubredes [[50, 200, 10]] 0 = (st', Inr out)
          \<and> st' ! 0 = [50, 200, 10]
          \<and> length out = 3
          \<and> sorted_wrt (\<lambda>x y. y \<le> x) (map hostsRequeridos out)
          \<and> indice (out ! 2) = 2
          \<and> calcularMascaraDesdeHosts (hostsRequeridos (out ! 2)) = Inr (mascara (out ! 2))
          \<and> calcularHostsDesdeMascara (mascara (out ! 2)) = Some (hostsDisponibles (out ! 2))
          \<and> hostsRequeridos (out ! 2) \<le> hostsDisponibles (out ! 2)"
    using o(1) s l o(4) f by (intro conjI) simp_all
  then have "\<exists>st' out. optimizarSubredes [[50, 200, 10]] 0 = (st', Inr out)
          \<and> st' ! 0 = [50, 200, 10]
          \<and> length out = 3
          \<and> sorted_wrt (\<lambda>x y. y \<le> x) (map hostsRequeridos out)
          \<and> indice (out ! 2) = 2
          \<and> calcularMascaraDesdeHosts (hostsRequeridos (out ! 2)) = Inr (mascara (out ! 2))
          \<and> calcularHostsDesdeMascara (mascara (out ! 2)) = Some (hostsDisponibles (out ! 2))
          \<and> hostsRequeridos (out ! 2) \<le> hostsDisponibles (out ! 2)"
    by (intro exI)
  with a b' show ?thesis by (intro conjI)
qed

text \<open>
  Claim C9 as stated fails for an array that holds a count above 4294967294: no list
  is returned, since \<open>calcularMascaraDesdeHosts\<close> raises \<open>RangeError\<close>.
\<close>

theorem optimized_list_counterexample:
  "optimizarSubredes [[4294967295]] 0 = ([[4294967295], [4294967295]], Inl RangeError)"
proof -
  have "optimizarSubredes [[4294967295]] 0
      = ([[4294967295]] @ [sort_key (\<lambda>x. - x) ([[4294967295]] ! 0)],
         optimizar_bucle 0 (sort_key (\<lambda>x. - x) ([[4294967295]] ! 0)))"
    by (rule optimizarSubredes_store) simp
  moreover have "calcularMascaraDesdeHosts 4294967295 = Inl RangeError"
    by (rule calcularMascaraDesdeHosts_too_many) simp
  ultimately show ?thesis by simp
qed

end
